theory Spec2Isabelle
  imports Complex_Main "HOL-Library.Multiset" "HOL-Library.Sublist"
begin

section \<open>BigNumber values and hexadecimal quantities\<close>

text \<open>
  The operators compute with \<^verbatim>\<open>BigNumber\<close> objects of bignumber.js, which are immutable.
  The library is not part of the repository; its operations are modelled from its
  documentation, with the settings that the library has when the application changes none:
  \<^verbatim>\<open>DECIMAL_PLACES\<close> 20, \<^verbatim>\<open>ROUNDING_MODE\<close> \<^verbatim>\<open>ROUND_HALF_UP\<close> and \<^verbatim>\<open>POW_PRECISION\<close> 0.
  The operations the operators call are \<^verbatim>\<open>plus\<close>, \<^verbatim>\<open>minus\<close>, \<^verbatim>\<open>isEqualTo\<close>,
  \<^verbatim>\<open>isLessThan\<close>, \<^verbatim>\<open>dividedBy\<close>, \<^verbatim>\<open>exponentiatedBy\<close>, \<^verbatim>\<open>toNumber\<close> and
  \<^verbatim>\<open>toString(16)\<close>.

  A value is a decimal number, a rational here, or \<^verbatim>\<open>NaN\<close>, which is absorbing for the
  arithmetic and compares equal to nothing, itself included. The two infinities and the
  negative zero of the library have no value in this model; the places where the library
  gives one of them are named below.
\<close>

datatype BigNumber = NaN | Num rat

fun plus :: "BigNumber \<Rightarrow> BigNumber \<Rightarrow> BigNumber" where
  "plus (Num a) (Num b) = Num (a + b)"
| "plus _ _ = NaN"

fun minus :: "BigNumber \<Rightarrow> BigNumber \<Rightarrow> BigNumber" where
  "minus (Num a) (Num b) = Num (a - b)"
| "minus _ _ = NaN"

fun isEqualTo :: "BigNumber \<Rightarrow> BigNumber \<Rightarrow> bool" where
  "isEqualTo (Num a) (Num b) = (a = b)"
| "isEqualTo _ _ = False"

fun isLessThan :: "BigNumber \<Rightarrow> BigNumber \<Rightarrow> bool" where
  "isLessThan (Num a) (Num b) = (a < b)"
| "isLessThan _ _ = False"

text \<open>
  \<^verbatim>\<open>new BigNumber(10).exponentiatedBy(decimals)\<close>: the divisor that turns the smallest unit
  into coins. A power with a natural exponent is exact; it is a positive number, so
  \<^verbatim>\<open>dividedBy\<close> never sees zero.
\<close>

definition decimalsCorrector :: "nat \<Rightarrow> rat" where
  "decimalsCorrector decimals = 10 ^ decimals"

text \<open>
  \<^verbatim>\<open>dividedBy\<close> rounds the quotient to \<^verbatim>\<open>DECIMAL_PLACES\<close> decimal places, to the nearest
  neighbour and away from zero when the two neighbours are as near. A division by zero,
  which gives an infinity or \<^verbatim>\<open>NaN\<close> in the library, is \<^verbatim>\<open>NaN\<close> here.
\<close>

definition decimalPlaces :: nat where
  "decimalPlaces = 20"

definition roundHalfUp :: "nat \<Rightarrow> rat \<Rightarrow> rat" where
  "roundHalfUp places q =
     (if q < 0 then - 1 else 1) * of_int \<lfloor>\<bar>q\<bar> * 10 ^ places + 1 / 2\<rfloor> / 10 ^ places"

fun dividedBy :: "BigNumber \<Rightarrow> rat \<Rightarrow> BigNumber" where
  "dividedBy (Num a) c = (if c = 0 then NaN else Num (roundHalfUp decimalPlaces (a / c)))"
| "dividedBy NaN c = NaN"

text \<open>
  \<^verbatim>\<open>toNumber\<close> gives a JavaScript \<^verbatim>\<open>number\<close>, the double that is nearest to the value,
  the one with the even significand when two are as near. A double has a significand of 53
  bits; the unit of its last place is \<open>2 ^ (e - 52)\<close> for a value between \<open>2 ^ e\<close> and
  \<open>2 ^ (e + 1)\<close>, and \<open>2 ^ - 1074\<close> at least. A \<^verbatim>\<open>number\<close> is a value of the type of the
  \<^verbatim>\<open>BigNumber\<close> values here. Values of \<open>2 ^ 1024\<close> and more become \<^verbatim>\<open>Infinity\<close> in
  JavaScript, which this model does not have.
\<close>

fun bitLength :: "nat \<Rightarrow> nat" where
  "bitLength n = (if n = 0 then 0 else Suc (bitLength (n div 2)))"

declare bitLength.simps [simp del]

definition pow2 :: "int \<Rightarrow> rat" where
  "pow2 e = (if 0 \<le> e then 2 ^ nat e else 1 / 2 ^ nat (- e))"

text \<open>The exponent \<open>e\<close> with \<open>2 ^ e \<le> q < 2 ^ (e + 1)\<close>, for a positive \<open>q\<close>.\<close>

definition floorLog2 :: "rat \<Rightarrow> int" where
  "floorLog2 q =
     (case quotient_of q of
        (a, b) \<Rightarrow>
          (let d = int (bitLength (nat a)) - int (bitLength (nat b))
           in if pow2 d \<le> q then d else d - 1))"

definition roundHalfEven :: "rat \<Rightarrow> int" where
  "roundHalfEven q =
     (let f = \<lfloor>q\<rfloor>; r = q - of_int f
      in if r < 1 / 2 then f
         else if 1 / 2 < r then f + 1
         else if even f then f else f + 1)"

definition nearestDouble :: "rat \<Rightarrow> rat" where
  "nearestDouble q =
     (if q = 0 then 0
      else (let u = max (floorLog2 \<bar>q\<bar> - 52) (- 1074)
            in of_int (roundHalfEven (q / pow2 u)) * pow2 u))"

fun toNumber :: "BigNumber \<Rightarrow> BigNumber" where
  "toNumber NaN = NaN"
| "toNumber (Num q) = Num (nearestDouble q)"

text \<open>
  \<^verbatim>\<open>new BigNumber(str, 16)\<close>. The alphabet of base 16 is \<^verbatim>\<open>0123456789abcdef\<close>. The
  constructor reads a \<^verbatim>\<open>-\<close> at the head as the sign and then the digits, of which there
  may be none; when a character is not of the alphabet and the string is its own upper
  case, it reads the string in lower case instead. So the digits are all of
  \<^verbatim>\<open>0123456789abcdef\<close> or all of \<^verbatim>\<open>0123456789ABCDEF\<close>, and a string that mixes the two
  cases of the letters is not a number. The constructor also reads a fraction after a
  point, white space around the number, a \<^verbatim>\<open>+\<close>, a prefix \<^verbatim>\<open>0x\<close> and the words
  \<^verbatim>\<open>Infinity\<close> and \<^verbatim>\<open>NaN\<close>: a string with any of these is outside this model, which
  gives \<^verbatim>\<open>NaN\<close> for it.
\<close>

definition digitValue :: "char \<Rightarrow> nat option" where
  "digitValue c =
     (let n = (of_char c :: nat)
      in if 48 \<le> n \<and> n \<le> 57 then Some (n - 48)
         else if 97 \<le> n \<and> n \<le> 102 then Some (n - 87)
         else None)"

definition digitValueUpper :: "char \<Rightarrow> nat option" where
  "digitValueUpper c =
     (let n = (of_char c :: nat)
      in if 48 \<le> n \<and> n \<le> 57 then Some (n - 48)
         else if 65 \<le> n \<and> n \<le> 70 then Some (n - 55)
         else None)"

fun parseDigits :: "(char \<Rightarrow> nat option) \<Rightarrow> nat \<Rightarrow> string \<Rightarrow> nat option" where
  "parseDigits valueOf acc [] = Some acc"
| "parseDigits valueOf acc (c # cs) =
     (case valueOf c of
        None \<Rightarrow> None
      | Some d \<Rightarrow> parseDigits valueOf (16 * acc + d) cs)"

definition digitsBase16 :: "string \<Rightarrow> nat option" where
  "digitsBase16 str =
     (case parseDigits digitValue 0 str of
        Some n \<Rightarrow> Some n
      | None \<Rightarrow> parseDigits digitValueUpper 0 str)"

definition bigNumberBase16 :: "string \<Rightarrow> BigNumber" where
  "bigNumberBase16 str =
     (if str \<noteq> [] \<and> hd str = CHR ''-''
      then (case digitsBase16 (tl str) of
              None \<Rightarrow> NaN
            | Some n \<Rightarrow> Num (- of_nat n))
      else (case digitsBase16 str of
              None \<Rightarrow> NaN
            | Some n \<Rightarrow> Num (of_nat n)))"

text \<open>\<^verbatim>\<open>new BigNumber((response as string).substr(2), 16)\<close>\<close>

definition hexToBigNumber :: "string \<Rightarrow> BigNumber" where
  "hexToBigNumber response = bigNumberBase16 (drop 2 response)"

text \<open>
  The digits of the two cases, the number that a list of digits stands for, and the
  digits of a natural number without leading zeros.
\<close>

definition digitChar :: "nat \<Rightarrow> char" where
  "digitChar d = ''0123456789abcdef'' ! d"

definition digitCharUpper :: "nat \<Rightarrow> char" where
  "digitCharUpper d = ''0123456789ABCDEF'' ! d"


fun natToString16 :: "nat \<Rightarrow> string" where
  "natToString16 n =
     (if n < 16 then [digitChar n]
      else natToString16 (n div 16) @ [digitChar (n mod 16)])"

declare natToString16.simps [simp del]

text \<open>
  \<^verbatim>\<open>x.toString(16)\<close>. The operator calls it on a block number, which is \<^verbatim>\<open>NaN\<close> or an
  integer: the digits are those of the integer part, after the sign.
\<close>

fun toString16 :: "BigNumber \<Rightarrow> string" where
  "toString16 NaN = ''NaN''"
| "toString16 (Num a) =
     (if a < 0 then ''-'' else []) @ natToString16 (nat \<lfloor>\<bar>a\<bar>\<rfloor>)"

section \<open>EthBlockchainOperator\<close>

record ProgressEvent =
  currentBlock :: BigNumber
  highestBlock :: BigNumber
  synchronized :: bool


text \<open>
  The state of the operator: what \<^verbatim>\<open>progressSubject\<close> has emitted, oldest first, the two
  periods, and the delay of the query that \<^verbatim>\<open>dataSubscription\<close> holds.
\<close>

record EthBlockchainOperator =
  progressSubject :: "ProgressEvent list"
  bcUpdatePeriod :: nat
  bcErrorUpdatePeriod :: nat
  dataSubscription :: "nat option"


definition bcStartDataRefreshSubscription ::
  "nat \<Rightarrow> EthBlockchainOperator \<Rightarrow> EthBlockchainOperator" where
  "bcStartDataRefreshSubscription delayMs op = op\<lparr>dataSubscription := Some delayMs\<rparr>"


definition syncingError :: "EthBlockchainOperator \<Rightarrow> EthBlockchainOperator" where
  "syncingError op = bcStartDataRefreshSubscription (bcErrorUpdatePeriod op) op"

section \<open>The node and the coin\<close>

text \<open>
  The fields of the coin that the balance operator reads. \<^verbatim>\<open>decimals\<close> is the field of
  the coin's \<^verbatim>\<open>EthCoinConfig\<close>.
\<close>

record Coin =
  nodeUrl :: string
  isLocal :: bool
  confirmationsNeeded :: int
  decimals :: nat

text \<open>
  A JavaScript value that is a string or \<^verbatim>\<open>undefined\<close>: reading the last element of an
  empty array gives \<^verbatim>\<open>undefined\<close>, and the operator passes what it read on to the node
  and uses it as a key.
\<close>

datatype JsString = Undefined | Str string

record RpcRequest =
  url :: string
  rpcMethod :: string
  params :: "JsString list"

text \<open>
  \<^verbatim>\<open>callRpcMethod(nodeUrl, method, params)\<close> hands a request to the node, which answers
  with a result or fails. The operator ignores what
  the error carries. During one pass the answers of the node are a function of the request.
\<close>

datatype RpcError = RpcError

type_synonym Node = "RpcRequest \<Rightarrow> RpcError + string"

section \<open>Balances of addresses and wallets\<close>

record AddressBalance =
  current :: BigNumber
  predicted :: BigNumber

record WalletBalance = AddressBalance +
  addresses :: "string \<rightharpoonup> AddressBalance"

definition newAddressBalance :: AddressBalance where
  "newAddressBalance = \<lparr>current = Num 0, predicted = Num 0\<rparr>"

definition newWalletBalance :: WalletBalance where
  "newWalletBalance = \<lparr>current = Num 0, predicted = Num 0, addresses = Map.empty\<rparr>"

subsection \<open>recursivelyGetBalances\<close>

text \<open>
  The block at which the confirmed balance is read:
  \<^verbatim>\<open>new BigNumber(currentBlockNumber).minus(confirmationsNeeded - 1)\<close>, replaced by 0 when
  it is less than 0. The constructor reads the decimal digits that JavaScript prints for
  the number, which are those of the number itself for the integers up to \<open>2 ^ 53\<close>, and
  the difference \<^verbatim>\<open>confirmationsNeeded - 1\<close> of two numbers is exact for such integers.
  The model takes the number and the difference themselves: beyond these integers it does
  not follow the code.
\<close>

definition blockForLastConfirmedBalance :: "Coin \<Rightarrow> BigNumber \<Rightarrow> BigNumber" where
  "blockForLastConfirmedBalance coin currentBlockNumber =
     (let block = minus currentBlockNumber (Num (of_int (confirmationsNeeded coin - 1)))
      in if isLessThan block (Num 0) then Num 0 else block)"

definition pendingBalanceRequest :: "Coin \<Rightarrow> JsString \<Rightarrow> RpcRequest" where
  "pendingBalanceRequest coin currentAddress =
     \<lparr>url = nodeUrl coin, rpcMethod = ''eth_getBalance'',
      params = [currentAddress, Str ''pending'']\<rparr>"

definition confirmedBalanceRequest :: "Coin \<Rightarrow> BigNumber \<Rightarrow> JsString \<Rightarrow> RpcRequest" where
  "confirmedBalanceRequest coin currentBlockNumber currentAddress =
     \<lparr>url = nodeUrl coin, rpcMethod = ''eth_getBalance'',
      params = [currentAddress,
        Str (''0x'' @ toString16 (blockForLastConfirmedBalance coin currentBlockNumber))]\<rparr>"

text \<open>
  The function returns the requests it sent, in order, with its result. The address of a
  pass is the last element of the list, \<^verbatim>\<open>addresses[addresses.length - 1]\<close>, and
  \<^verbatim>\<open>addresses.pop()\<close> removes it before the recursive call.
\<close>

function recursivelyGetBalances ::
  "Coin \<Rightarrow> Node \<Rightarrow> string list \<Rightarrow> BigNumber \<Rightarrow> (JsString \<rightharpoonup> AddressBalance) \<Rightarrow>
     RpcRequest list \<times> (RpcError + (JsString \<rightharpoonup> AddressBalance))" where
  "recursivelyGetBalances coin node addrs currentBlockNumber currentElements =
     (let currentAddress = (if addrs = [] then Undefined else Str (last addrs));
          pendingRequest = pendingBalanceRequest coin currentAddress;
          confirmedRequest = confirmedBalanceRequest coin currentBlockNumber currentAddress
      in case node pendingRequest of
           Inl e \<Rightarrow> ([pendingRequest], Inl e)
         | Inr response \<Rightarrow>
             (let predictedBalance =
                    dividedBy (hexToBigNumber response) (decimalsCorrector (decimals coin))
              in case node confirmedRequest of
                   Inl e \<Rightarrow> ([pendingRequest, confirmedRequest], Inl e)
                 | Inr response' \<Rightarrow>
                     (let elements = currentElements(currentAddress \<mapsto>
                            \<lparr>current = dividedBy (hexToBigNumber response')
                                         (decimalsCorrector (decimals coin)),
                             predicted = predictedBalance\<rparr>)
                      in if length addrs > 1
                         then (case recursivelyGetBalances coin node (butlast addrs)
                                      currentBlockNumber elements of
                                 (sent, result) \<Rightarrow>
                                   (pendingRequest # confirmedRequest # sent, result))
                         else ([pendingRequest, confirmedRequest], Inr elements))))"
  by pat_completeness auto
termination
  by (relation "measure (\<lambda>(coin, node, addrs, currentBlockNumber, currentElements). length addrs)")
    auto

declare recursivelyGetBalances.simps [simp del]

text \<open>
  One pass of \<^verbatim>\<open>recursivelyGetBalances\<close> taken alone: the requests it sends for its
  address and the balance it stores when the node answers both.
\<close>

definition fetchBalance ::
  "Coin \<Rightarrow> Node \<Rightarrow> BigNumber \<Rightarrow> JsString \<Rightarrow> RpcRequest list \<times> (RpcError + AddressBalance)" where
  "fetchBalance coin node currentBlockNumber currentAddress =
     (case node (pendingBalanceRequest coin currentAddress) of
        Inl e \<Rightarrow> ([pendingBalanceRequest coin currentAddress], Inl e)
      | Inr response \<Rightarrow>
          (case node (confirmedBalanceRequest coin currentBlockNumber currentAddress) of
             Inl e \<Rightarrow>
               ([pendingBalanceRequest coin currentAddress,
                 confirmedBalanceRequest coin currentBlockNumber currentAddress], Inl e)
           | Inr response' \<Rightarrow>
               ([pendingBalanceRequest coin currentAddress,
                 confirmedBalanceRequest coin currentBlockNumber currentAddress],
                Inr \<lparr>current = dividedBy (hexToBigNumber response')
                                  (decimalsCorrector (decimals coin)),
                     predicted = dividedBy (hexToBigNumber response)
                                  (decimalsCorrector (decimals coin))\<rparr>)))"

definition requestsFor :: "Coin \<Rightarrow> BigNumber \<Rightarrow> JsString \<Rightarrow> RpcRequest list" where
  "requestsFor coin h a = [pendingBalanceRequest coin a, confirmedBalanceRequest coin h a]"

text \<open>
  The map after all the passes, when the node has answered every request, and the condition
  that it answers the two requests of every address of a list.
\<close>

definition fetchedMap ::
  "Coin \<Rightarrow> Node \<Rightarrow> BigNumber \<Rightarrow> string list \<Rightarrow> (JsString \<rightharpoonup> AddressBalance) \<Rightarrow>
     (JsString \<rightharpoonup> AddressBalance)" where
  "fetchedMap coin node h xs m =
     (\<lambda>k. case k of
            Undefined \<Rightarrow> m k
          | Str a \<Rightarrow> if a \<in> set xs
                     then (case snd (fetchBalance coin node h (Str a)) of
                             Inr b \<Rightarrow> Some b | Inl e \<Rightarrow> None)
                     else m k)"

definition allAnswered :: "Coin \<Rightarrow> Node \<Rightarrow> BigNumber \<Rightarrow> string list \<Rightarrow> bool" where
  "allAnswered coin node h xs = list_all (\<lambda>a. isl (snd (fetchBalance coin node h (Str a))) = False) xs"

subsection \<open>The query of retrieveWalletBalance\<close>

text \<open>
  The callback of \<^verbatim>\<open>wallet.addresses.forEach\<close> that adds the balance of one address to
  the balance of the wallet.
\<close>

definition addAddressBalance ::
  "(JsString \<rightharpoonup> AddressBalance) \<Rightarrow> string \<Rightarrow> WalletBalance \<Rightarrow> WalletBalance" where
  "addAddressBalance result address' balance =
     (let addressBalance = (case result (Str address') of
                              Some b \<Rightarrow> b
                            | None \<Rightarrow> newAddressBalance)
      in balance\<lparr>current := plus (current balance) (current addressBalance),
                 predicted := plus (predicted balance) (predicted addressBalance),
                 addresses := (addresses balance)(address' \<mapsto> addressBalance)\<rparr>)"

definition blockNumberRequest :: "Coin \<Rightarrow> RpcRequest" where
  "blockNumberRequest coin = \<lparr>url = nodeUrl coin, rpcMethod = ''eth_blockNumber'', params = []\<rparr>"

text \<open>
  The query of \<^verbatim>\<open>retrieveWalletBalance\<close> when the saved data is not used, for a wallet
  with the given addresses: the height of the chain, the balances of the addresses, and
  their sum.
\<close>

definition nodeQuery :: "Coin \<Rightarrow> Node \<Rightarrow> string list \<Rightarrow> RpcRequest list \<times> (RpcError + WalletBalance)" where
  "nodeQuery coin node walletAddresses =
     (case node (blockNumberRequest coin) of
        Inl e \<Rightarrow> ([blockNumberRequest coin], Inl e)
      | Inr result \<Rightarrow>
          (let currentBlockNumber = toNumber (hexToBigNumber result)
           in case recursivelyGetBalances coin node walletAddresses currentBlockNumber Map.empty of
                (sent, Inl e) \<Rightarrow> (blockNumberRequest coin # sent, Inl e)
              | (sent, Inr result') \<Rightarrow>
                  (blockNumberRequest coin # sent,
                   Inr (fold (addAddressBalance result') walletAddresses newWalletBalance))))"

section \<open>Wallets and the store of objects\<close>

text \<open>
  The wallet list that the balance operator publishes is an array of wallet objects, each
  with an array of address objects. The operator hands the array to its subscribers and
  later changes fields of the objects in place, so arrays and objects live in a store and
  are named by references. \<^verbatim>\<open>BigNumber\<close> values are immutable and are stored in the fields.
\<close>

type_synonym ref = nat

record AddressBase =
  address :: string

record AddressWithBalance = AddressBase +
  coins :: BigNumber

text \<open>
  \<^verbatim>\<open>WalletWithBalance\<close> extends \<^verbatim>\<open>WalletBase\<close>. The type parameter is the array of
  addresses: the addresses themselves in a wallet that comes from the wallets service, a
  reference to an array of \<^verbatim>\<open>AddressWithBalance\<close> objects in a wallet of the store.
\<close>

record 'addrs WalletBase =
  id' :: string
  label :: string
  encrypted :: bool
  isHardware :: bool
  addresses :: 'addrs

record 'addrs WalletWithBalance = "'addrs WalletBase" +
  coins :: BigNumber

record Store =
  walletArrays :: "ref \<Rightarrow> ref list"
  walletObjects :: "ref \<Rightarrow> ref WalletWithBalance"
  addressArrays :: "ref \<Rightarrow> ref list"
  addressObjects :: "ref \<Rightarrow> AddressWithBalance"
  balanceMaps :: "ref \<Rightarrow> (string \<rightharpoonup> WalletBalance)"
  nextRef :: ref

text \<open>Creating an object: it gets the next reference, which no object has yet.\<close>

definition newAddressObject :: "AddressWithBalance \<Rightarrow> Store \<Rightarrow> ref \<times> Store" where
  "newAddressObject a s =
     (nextRef s, s\<lparr>addressObjects := (addressObjects s)(nextRef s := a),
                    nextRef := Suc (nextRef s)\<rparr>)"

definition newAddressArray :: "ref list \<Rightarrow> Store \<Rightarrow> ref \<times> Store" where
  "newAddressArray elements s =
     (nextRef s, s\<lparr>addressArrays := (addressArrays s)(nextRef s := elements),
                    nextRef := Suc (nextRef s)\<rparr>)"

definition newWalletObject :: "ref WalletWithBalance \<Rightarrow> Store \<Rightarrow> ref \<times> Store" where
  "newWalletObject w s =
     (nextRef s, s\<lparr>walletObjects := (walletObjects s)(nextRef s := w),
                    nextRef := Suc (nextRef s)\<rparr>)"

definition newWalletArray :: "ref list \<Rightarrow> Store \<Rightarrow> ref \<times> Store" where
  "newWalletArray elements s =
     (nextRef s, s\<lparr>walletArrays := (walletArrays s)(nextRef s := elements),
                    nextRef := Suc (nextRef s)\<rparr>)"

definition newBalanceMap :: "Store \<Rightarrow> ref \<times> Store" where
  "newBalanceMap s =
     (nextRef s, s\<lparr>balanceMaps := (balanceMaps s)(nextRef s := Map.empty),
                    nextRef := Suc (nextRef s)\<rparr>)"

text \<open>Assignments to fields of objects of the store.\<close>

definition setWalletCoins :: "ref \<Rightarrow> BigNumber \<Rightarrow> Store \<Rightarrow> Store" where
  "setWalletCoins w c s =
     s\<lparr>walletObjects := (walletObjects s)(w := (walletObjects s w)\<lparr>WalletWithBalance.coins := c\<rparr>)\<rparr>"

definition setWalletAddresses :: "ref \<Rightarrow> ref \<Rightarrow> Store \<Rightarrow> Store" where
  "setWalletAddresses w a s =
     s\<lparr>walletObjects := (walletObjects s)(w := (walletObjects s w)\<lparr>addresses := a\<rparr>)\<rparr>"

definition setAddressCoins :: "ref \<Rightarrow> BigNumber \<Rightarrow> Store \<Rightarrow> Store" where
  "setAddressCoins a c s =
     s\<lparr>addressObjects :=
         (addressObjects s)(a := (addressObjects s a)\<lparr>AddressWithBalance.coins := c\<rparr>)\<rparr>"

definition setBalance :: "ref \<Rightarrow> string \<Rightarrow> WalletBalance \<Rightarrow> Store \<Rightarrow> Store" where
  "setBalance m key balance s =
     s\<lparr>balanceMaps := (balanceMaps s)(m := (balanceMaps s m)(key \<mapsto> balance))\<rparr>"

subsection \<open>walletWithBalanceFromBase\<close>

text \<open>
  Modelled from the spec: \<^verbatim>\<open>walletWithBalanceFromBase\<close> and the classes of
  \<^verbatim>\<open>wallet-objects.ts\<close>, which is not among the sources. The operator calls the function to
  ``create a copy of the wallet list'': the result is a new wallet object with the fields of
  the wallet it was given and a new array of new address objects, one for each address of
  the wallet, with the balances at zero.
\<close>

fun addressesWithBalanceFromBase :: "AddressBase list \<Rightarrow> Store \<Rightarrow> ref list \<times> Store" where
  "addressesWithBalanceFromBase [] s = ([], s)"
| "addressesWithBalanceFromBase (a # as) s =
     (case newAddressObject \<lparr>address = address a, AddressWithBalance.coins = Num 0\<rparr> s of
        (r, s') \<Rightarrow>
          (case addressesWithBalanceFromBase as s' of
             (rs, s'') \<Rightarrow> (r # rs, s'')))"

definition walletWithBalanceFromBase ::
  "AddressBase list WalletBase \<Rightarrow> Store \<Rightarrow> ref \<times> Store" where
  "walletWithBalanceFromBase wallet s =
     (case addressesWithBalanceFromBase (addresses wallet) s of
        (rs, s') \<Rightarrow>
          (case newAddressArray rs s' of
             (array, s'') \<Rightarrow>
               newWalletObject
                 \<lparr>id' = id' wallet, label = label wallet, encrypted = encrypted wallet,
                  isHardware = isHardware wallet, addresses = array,
                  WalletWithBalance.coins = Num 0\<rparr> s''))"

section \<open>EthBalanceAndOutputsOperator\<close>

text \<open>
  A subscription made by \<^verbatim>\<open>startDataRefreshSubscription\<close> waits for its delay, with the
  flag \<^verbatim>\<open>updateWalletsFirst\<close>, then runs the passes; while the requests of its network pass
  are with the node it holds the wallets and the wallet array of that pass.
  \<^verbatim>\<open>unsubscribe\<close> closes it, and so does the end of its pass. A closed subscription
  delivers nothing.
\<close>

datatype Subscription =
  Waiting nat bool
| Running "AddressBase list WalletBase list" ref
| Closed

text \<open>
  The fields of the operator. A subject is the list of the values it has emitted, oldest
  first; a \<^verbatim>\<open>BehaviorSubject\<close> starts with its initial value, and its \<^verbatim>\<open>value\<close> is the
  last element. \<^verbatim>\<open>walletsWithBalanceSubject\<close> emits references to wallet arrays.
  \<^verbatim>\<open>lastBalancesUpdateTimeSubject\<close> emits dates, of which the number is kept.
  \<^verbatim>\<open>subscriptions\<close> has every subscription the operator has made, and
  \<^verbatim>\<open>dataRefreshSubscription\<close> is the position of the one the field refers to.
  \<^verbatim>\<open>savedBalanceData\<close> and \<^verbatim>\<open>temporalSavedBalanceData\<close> refer to maps of the store.
\<close>

record EthBalanceAndOutputsOperator =
  store :: Store
  walletsWithBalanceList :: "ref option"
  walletsWithBalanceSubject :: "ref option list"
  lastBalancesUpdateTimeSubject :: nat
  hasPendingTransactionsSubject :: "bool list"
  firstFullUpdateMadeSubject :: "bool list"
  hadErrorRefreshingBalanceSubject :: "bool list"
  refreshingBalanceSubject :: "bool list"
  subscriptions :: "Subscription list"
  dataRefreshSubscription :: "nat option"
  updatePeriod :: nat
  errorUpdatePeriod :: nat
  savedBalanceData :: ref
  temporalSavedBalanceData :: ref
  savedWalletsList :: "AddressBase list WalletBase list option"
  currentCoin :: Coin

definition emptyStore :: Store where
  "emptyStore =
     \<lparr>walletArrays = (\<lambda>r. []),
      walletObjects = (\<lambda>r. \<lparr>id' = [], label = [], encrypted = False, isHardware = False,
                             addresses = 0, WalletWithBalance.coins = Num 0\<rparr>),
      addressArrays = (\<lambda>r. []),
      addressObjects = (\<lambda>r. \<lparr>address = [], AddressWithBalance.coins = Num 0\<rparr>),
      balanceMaps = (\<lambda>r. Map.empty),
      nextRef = 0\<rparr>"

text \<open>
  The constructor, up to the subscription to the wallets service: the two maps are new and
  different objects, and the periods are longer for a remote node.
\<close>

definition newEthBalanceAndOutputsOperator :: "Coin \<Rightarrow> EthBalanceAndOutputsOperator" where
  "newEthBalanceAndOutputsOperator coin =
     (case newBalanceMap emptyStore of
        (saved, s) \<Rightarrow>
          (case newBalanceMap s of
             (temporal, s') \<Rightarrow>
               \<lparr>store = s',
                walletsWithBalanceList = None,
                walletsWithBalanceSubject = [],
                lastBalancesUpdateTimeSubject = 0,
                hasPendingTransactionsSubject = [False],
                firstFullUpdateMadeSubject = [False],
                hadErrorRefreshingBalanceSubject = [False],
                refreshingBalanceSubject = [False],
                subscriptions = [],
                dataRefreshSubscription = None,
                updatePeriod = (if \<not> isLocal coin then 600 * 1000 else 10 * 1000),
                errorUpdatePeriod = (if \<not> isLocal coin then 60 * 1000 else 2 * 1000),
                savedBalanceData = saved,
                temporalSavedBalanceData = temporal,
                savedWalletsList = None,
                currentCoin = coin\<rparr>))"

subsection \<open>retrieveWalletBalance\<close>

text \<open>\<^verbatim>\<open>wallet.addresses.map(a => a.address)\<close>\<close>

definition walletAddresses :: "Store \<Rightarrow> ref \<Rightarrow> string list" where
  "walletAddresses s wallet =
     map (\<lambda>a. address (addressObjects s a)) (addressArrays s (addresses (walletObjects s wallet)))"

text \<open>The query when the saved data is used.\<close>

definition savedQuery :: "ref \<Rightarrow> EthBalanceAndOutputsOperator \<Rightarrow> WalletBalance" where
  "savedQuery wallet op =
     (case balanceMaps (store op) (savedBalanceData op) (id' (walletObjects (store op) wallet)) of
        Some balance \<Rightarrow> balance
      | None \<Rightarrow> newWalletBalance)"

text \<open>The callback of \<^verbatim>\<open>wallet.addresses.forEach\<close> that sets the coins of an address.\<close>

definition setCoinsFromBalance :: "WalletBalance \<Rightarrow> ref \<Rightarrow> Store \<Rightarrow> Store" where
  "setCoinsFromBalance balance a s =
     (case WalletBalance.addresses balance (address (addressObjects s a)) of
        Some addressBalance \<Rightarrow> setAddressCoins a (predicted addressBalance) s
      | None \<Rightarrow> setAddressCoins a (Num 0) s)"

text \<open>
  The last step of \<^verbatim>\<open>retrieveWalletBalance\<close>, which adds the values of the balance to the
  wallet object and returns the signal of pending transactions.
\<close>

definition addValuesToWallet ::
  "ref \<Rightarrow> bool \<Rightarrow> WalletBalance \<Rightarrow> EthBalanceAndOutputsOperator \<Rightarrow>
     bool \<times> EthBalanceAndOutputsOperator" where
  "addValuesToWallet wallet useSavedBalanceData balance op =
     (let s1 = setBalance (temporalSavedBalanceData op)
                 (id' (walletObjects (store op) wallet)) balance (store op);
          s2 = setWalletCoins wallet (predicted balance) s1;
          s3 = fold (setCoinsFromBalance balance)
                 (addressArrays s2 (addresses (walletObjects s2 wallet))) s2
      in (if \<not> useSavedBalanceData
          then \<not> isEqualTo (current balance) (predicted balance)
          else last (hasPendingTransactionsSubject op),
          op\<lparr>store := s3\<rparr>))"

text \<open>
  An observable made by the operator is a computation that has not run yet: when it is
  subscribed to, it works on the operator as it is then, and gives a value or fails.
\<close>

type_synonym 'a Observable =
  "EthBalanceAndOutputsOperator \<Rightarrow> (RpcError + 'a) \<times> EthBalanceAndOutputsOperator"

text \<open>
  With the saved data, the balance is read from \<^verbatim>\<open>savedBalanceData\<close> when the function is
  called, in the operator \<open>op\<close>; only the last step waits for the subscription. Without,
  the requests go to the node after the subscription.
\<close>

definition retrieveWalletBalance ::
  "Node \<Rightarrow> ref \<Rightarrow> bool \<Rightarrow> EthBalanceAndOutputsOperator \<Rightarrow> bool Observable" where
  "retrieveWalletBalance node wallet useSavedBalanceData op =
     (if \<not> useSavedBalanceData
      then (\<lambda>op'. case snd (nodeQuery (currentCoin op') node
                               (walletAddresses (store op') wallet)) of
                     Inl e \<Rightarrow> (Inl e, op')
                   | Inr balance \<Rightarrow>
                       (case addValuesToWallet wallet useSavedBalanceData balance op' of
                          (pending, op'') \<Rightarrow> (Inr pending, op'')))
      else (let balance = savedQuery wallet op
            in (\<lambda>op'. case addValuesToWallet wallet useSavedBalanceData balance op' of
                         (pending, op'') \<Rightarrow> (Inr pending, op''))))"

subsection \<open>refreshBalances\<close>

text \<open>
  \<^verbatim>\<open>forkJoin\<close> gives the values of all the observables, and fails as soon as one of them
  fails. The observables run one after the other here: which of them have finished when
  another fails depends on the order in which the node answers, and what they have written
  by then is in objects of the pass alone.
\<close>

fun forkJoin :: "'a Observable list \<Rightarrow> 'a list Observable" where
  "forkJoin [] op = (Inr [], op)"
| "forkJoin (observable # observables) op =
     (case observable op of
        (Inl e, op') \<Rightarrow> (Inl e, op')
      | (Inr v, op') \<Rightarrow>
          (case forkJoin observables op' of
             (Inl e, op'') \<Rightarrow> (Inl e, op'')
           | (Inr vs, op'') \<Rightarrow> (Inr (v # vs), op'')))"

fun walletsWithBalanceFromBase ::
  "AddressBase list WalletBase list \<Rightarrow> Store \<Rightarrow> ref list \<times> Store" where
  "walletsWithBalanceFromBase [] s = ([], s)"
| "walletsWithBalanceFromBase (wallet # wallets) s =
     (case walletWithBalanceFromBase wallet s of
        (r, s') \<Rightarrow>
          (case walletsWithBalanceFromBase wallets s' of
             (rs, s'') \<Rightarrow> (r # rs, s'')))"

text \<open>
  The body of \<^verbatim>\<open>refreshBalances\<close> before the requests: the copy of the wallet list, and a
  new temporal map unless the pass is the quick one.
\<close>

definition refreshBalancesBegin ::
  "AddressBase list WalletBase list \<Rightarrow> bool \<Rightarrow> EthBalanceAndOutputsOperator \<Rightarrow>
     ref \<times> EthBalanceAndOutputsOperator" where
  "refreshBalancesBegin wallets forceQuickCompleteArrayUpdate op =
     (case walletsWithBalanceFromBase wallets (store op) of
        (rs, s) \<Rightarrow>
          (case newWalletArray rs s of
             (temporalWallets, s') \<Rightarrow>
               (if \<not> forceQuickCompleteArrayUpdate
                then (case newBalanceMap s' of
                        (m, s'') \<Rightarrow>
                          (temporalWallets, op\<lparr>store := s'', temporalSavedBalanceData := m\<rparr>))
                else (temporalWallets, op\<lparr>store := s'\<rparr>))))"

text \<open>
  The observable \<^verbatim>\<open>procedure\<close>, made in the operator \<open>op\<close>: the balance of each wallet of
  the copy, or a fake response when there are no wallets.
\<close>

definition procedure ::
  "Node \<Rightarrow> AddressBase list WalletBase list \<Rightarrow> ref \<Rightarrow> bool \<Rightarrow> EthBalanceAndOutputsOperator \<Rightarrow>
     bool list Observable" where
  "procedure node wallets temporalWallets forceQuickCompleteArrayUpdate op =
     (if length wallets > 0
      then forkJoin (map (\<lambda>wallet. retrieveWalletBalance node wallet
                                      forceQuickCompleteArrayUpdate op)
                       (walletArrays (store op) temporalWallets))
      else (\<lambda>op'. (Inr [False], op')))"

definition informDataUpdated :: "EthBalanceAndOutputsOperator \<Rightarrow> EthBalanceAndOutputsOperator" where
  "informDataUpdated op =
     op\<lparr>walletsWithBalanceSubject := walletsWithBalanceSubject op @ [walletsWithBalanceList op]\<rparr>"

text \<open>``Update the whole list.''\<close>

definition updateWholeList ::
  "ref \<Rightarrow> EthBalanceAndOutputsOperator \<Rightarrow> EthBalanceAndOutputsOperator" where
  "updateWholeList temporalWallets op =
     informDataUpdated (op\<lparr>walletsWithBalanceList := Some temporalWallets\<rparr>)"

text \<open>
  ``Update only the balances with changes.'' Each function is the callback of a
  \<^verbatim>\<open>forEach\<close> applied from an index on, with the store and \<^verbatim>\<open>changeDetected\<close>.
\<close>

definition updateAddressCoins :: "ref \<Rightarrow> ref \<Rightarrow> Store \<times> bool \<Rightarrow> Store \<times> bool" where
  "updateAddressCoins currentAddress temporalAddress sc =
     (case sc of
        (s, changeDetected) \<Rightarrow>
          if \<not> isEqualTo (AddressWithBalance.coins (addressObjects s currentAddress))
                 (AddressWithBalance.coins (addressObjects s temporalAddress))
          then (setAddressCoins currentAddress
                  (AddressWithBalance.coins (addressObjects s temporalAddress)) s, True)
          else (s, changeDetected))"

fun updateAddresses :: "ref list \<Rightarrow> nat \<Rightarrow> ref list \<Rightarrow> Store \<times> bool \<Rightarrow> Store \<times> bool" where
  "updateAddresses [] j temporalAddresses sc = sc"
| "updateAddresses (currentAddress # rest) j temporalAddresses sc =
     updateAddresses rest (Suc j) temporalAddresses
       (updateAddressCoins currentAddress (temporalAddresses ! j) sc)"

definition updateWalletBalances :: "ref \<Rightarrow> ref \<Rightarrow> Store \<times> bool \<Rightarrow> Store \<times> bool" where
  "updateWalletBalances currentWallet temporalWallet sc =
     (case sc of
        (s, changeDetected) \<Rightarrow>
          (let sc1 =
                 (if \<not> isEqualTo (WalletWithBalance.coins (walletObjects s currentWallet))
                        (WalletWithBalance.coins (walletObjects s temporalWallet))
                  then (setWalletCoins currentWallet
                          (WalletWithBalance.coins (walletObjects s temporalWallet)) s, True)
                  else (s, changeDetected));
               s1 = fst sc1;
               currentAddresses = addressArrays s1 (addresses (walletObjects s1 currentWallet));
               temporalAddresses = addressArrays s1 (addresses (walletObjects s1 temporalWallet))
           in if length currentAddresses \<noteq> length temporalAddresses
              then (setWalletAddresses currentWallet
                      (addresses (walletObjects s1 temporalWallet)) s1, True)
              else updateAddresses currentAddresses 0 temporalAddresses sc1))"

fun updateBalances :: "ref list \<Rightarrow> nat \<Rightarrow> ref list \<Rightarrow> Store \<times> bool \<Rightarrow> Store \<times> bool" where
  "updateBalances [] i temporalWallets sc = sc"
| "updateBalances (currentWallet # rest) i temporalWallets sc =
     updateBalances rest (Suc i) temporalWallets
       (updateWalletBalances currentWallet (temporalWallets ! i) sc)"

text \<open>``If there is a change in the IDs of the wallet list''.\<close>

definition idChangeDetected :: "Store \<Rightarrow> ref list \<Rightarrow> ref list \<Rightarrow> bool" where
  "idChangeDetected s currentWallets temporalWallets =
     list_ex (\<lambda>i. id' (walletObjects s (currentWallets ! i)) \<noteq>
                  id' (walletObjects s (temporalWallets ! i)))
       [0..<length currentWallets]"

text \<open>The reconciliation of the published list with the list of the pass.\<close>

definition updateWalletsWithBalanceList ::
  "ref \<Rightarrow> bool \<Rightarrow> EthBalanceAndOutputsOperator \<Rightarrow> EthBalanceAndOutputsOperator" where
  "updateWalletsWithBalanceList temporalWallets forceQuickCompleteArrayUpdate op =
     (case walletsWithBalanceList op of
        None \<Rightarrow> updateWholeList temporalWallets op
      | Some current' \<Rightarrow>
          if forceQuickCompleteArrayUpdate \<or>
             length (walletArrays (store op) current') \<noteq>
               length (walletArrays (store op) temporalWallets)
          then updateWholeList temporalWallets op
          else if idChangeDetected (store op) (walletArrays (store op) current')
                    (walletArrays (store op) temporalWallets)
          then updateWholeList temporalWallets op
          else (case updateBalances (walletArrays (store op) current') 0
                       (walletArrays (store op) temporalWallets) (store op, False) of
                  (s, changeDetected) \<Rightarrow>
                    if changeDetected then informDataUpdated (op\<lparr>store := s\<rparr>)
                    else op\<lparr>store := s\<rparr>))"

text \<open>The callback of \<^verbatim>\<open>tap\<close>, which runs when the balances of all the wallets are there.\<close>

definition refreshBalancesTap ::
  "ref \<Rightarrow> bool \<Rightarrow> bool list \<Rightarrow> EthBalanceAndOutputsOperator \<Rightarrow> EthBalanceAndOutputsOperator" where
  "refreshBalancesTap temporalWallets forceQuickCompleteArrayUpdate walletHasPendingTx op =
     (let op1 = op\<lparr>hasPendingTransactionsSubject :=
                   hasPendingTransactionsSubject op @ [list_ex (\<lambda>value. value) walletHasPendingTx]\<rparr>;
          op2 = (if \<not> forceQuickCompleteArrayUpdate
                 then op1\<lparr>lastBalancesUpdateTimeSubject := Suc (lastBalancesUpdateTimeSubject op1)\<rparr>
                 else op1);
          op3 = updateWalletsWithBalanceList temporalWallets forceQuickCompleteArrayUpdate op2
      in if \<not> forceQuickCompleteArrayUpdate
         then (let op4 = op3\<lparr>savedBalanceData := temporalSavedBalanceData op3\<rparr>
               in if \<not> last (firstFullUpdateMadeSubject op4)
                  then op4\<lparr>firstFullUpdateMadeSubject := firstFullUpdateMadeSubject op4 @ [True]\<rparr>
                  else op4)
         else op3)"

text \<open>
  The end of a pass: the balances arrive, or the pass fails. The observable of a network
  pass is made when the pass begins; it reads nothing of the operator at that time, and is
  made again here.
\<close>

definition refreshBalancesEnd ::
  "Node \<Rightarrow> AddressBase list WalletBase list \<Rightarrow> ref \<Rightarrow> bool \<Rightarrow> EthBalanceAndOutputsOperator \<Rightarrow>
     (RpcError + unit) \<times> EthBalanceAndOutputsOperator" where
  "refreshBalancesEnd node wallets temporalWallets forceQuickCompleteArrayUpdate op =
     (case procedure node wallets temporalWallets forceQuickCompleteArrayUpdate op op of
        (Inl e, op') \<Rightarrow> (Inl e, op')
      | (Inr walletHasPendingTx, op') \<Rightarrow>
          (Inr (), refreshBalancesTap temporalWallets forceQuickCompleteArrayUpdate
                     walletHasPendingTx op'))"

text \<open>A pass from its beginning to its end.\<close>

definition refreshBalances ::
  "Node \<Rightarrow> AddressBase list WalletBase list \<Rightarrow> bool \<Rightarrow> EthBalanceAndOutputsOperator \<Rightarrow>
     (RpcError + unit) \<times> EthBalanceAndOutputsOperator" where
  "refreshBalances node wallets forceQuickCompleteArrayUpdate op =
     (case refreshBalancesBegin wallets forceQuickCompleteArrayUpdate op of
        (temporalWallets, op') \<Rightarrow>
          refreshBalancesEnd node wallets temporalWallets forceQuickCompleteArrayUpdate op')"

subsection \<open>startDataRefreshSubscription\<close>

definition unsubscribe :: "EthBalanceAndOutputsOperator \<Rightarrow> EthBalanceAndOutputsOperator" where
  "unsubscribe op =
     (case dataRefreshSubscription op of
        None \<Rightarrow> op
      | Some k \<Rightarrow> op\<lparr>subscriptions := (subscriptions op)[k := Closed]\<rparr>)"

definition startDataRefreshSubscription ::
  "nat \<Rightarrow> bool \<Rightarrow> EthBalanceAndOutputsOperator \<Rightarrow> EthBalanceAndOutputsOperator" where
  "startDataRefreshSubscription delayMs updateWalletsFirst op =
     (let op1 = unsubscribe op
      in if savedWalletsList op1 \<noteq> None
         then op1\<lparr>subscriptions := subscriptions op1 @ [Waiting delayMs updateWalletsFirst],
                  dataRefreshSubscription := Some (length (subscriptions op1))\<rparr>
         else op1)"

text \<open>The two callbacks of \<^verbatim>\<open>subscribe\<close>.\<close>

definition refreshNext :: "EthBalanceAndOutputsOperator \<Rightarrow> EthBalanceAndOutputsOperator" where
  "refreshNext op =
     startDataRefreshSubscription (updatePeriod op) False
       (op\<lparr>hadErrorRefreshingBalanceSubject := hadErrorRefreshingBalanceSubject op @ [False],
           refreshingBalanceSubject := refreshingBalanceSubject op @ [False]\<rparr>)"

definition refreshError :: "EthBalanceAndOutputsOperator \<Rightarrow> EthBalanceAndOutputsOperator" where
  "refreshError op =
     startDataRefreshSubscription (errorUpdatePeriod op) False
       (op\<lparr>hadErrorRefreshingBalanceSubject := hadErrorRefreshingBalanceSubject op @ [True],
           refreshingBalanceSubject := refreshingBalanceSubject op @ [False]\<rparr>)"

text \<open>A subscription that has delivered its value or its error is closed.\<close>

definition closeSubscription ::
  "nat \<Rightarrow> EthBalanceAndOutputsOperator \<Rightarrow> EthBalanceAndOutputsOperator" where
  "closeSubscription k op = op\<lparr>subscriptions := (subscriptions op)[k := Closed]\<rparr>"

text \<open>
  The end of the network pass of the subscription \<open>k\<close>, when the node has answered every
  request of the pass or has failed one.
\<close>

definition passEnds ::
  "Node \<Rightarrow> nat \<Rightarrow> EthBalanceAndOutputsOperator \<Rightarrow> EthBalanceAndOutputsOperator" where
  "passEnds node k op =
     (if k < length (subscriptions op)
      then (case subscriptions op ! k of
              Running wallets temporalWallets \<Rightarrow>
                (case refreshBalancesEnd node wallets temporalWallets False op of
                   (Inr u, op') \<Rightarrow> closeSubscription k (refreshNext op')
                 | (Inl e, op') \<Rightarrow> closeSubscription k (refreshError op'))
            | _ \<Rightarrow> op)
      else op)"

text \<open>
  The delay of the subscription \<open>k\<close> is over: the operator tells that it is refreshing, runs
  the quick pass when \<^verbatim>\<open>updateWalletsFirst\<close> is set, and begins the network pass. With no
  wallet the network pass has no request to wait for and ends at once.
\<close>

definition timerFires ::
  "Node \<Rightarrow> nat \<Rightarrow> EthBalanceAndOutputsOperator \<Rightarrow> EthBalanceAndOutputsOperator" where
  "timerFires node k op =
     (if k < length (subscriptions op)
      then (case subscriptions op ! k of
              Waiting delayMs updateWalletsFirst \<Rightarrow>
                (let op1 = op\<lparr>refreshingBalanceSubject := refreshingBalanceSubject op @ [True]\<rparr>
                 in case savedWalletsList op1 of
                      None \<Rightarrow> closeSubscription k (refreshError op1)
                    | Some wallets \<Rightarrow>
                        (case (if updateWalletsFirst then refreshBalances node wallets True op1
                               else (Inr (), op1)) of
                           (Inl e, op2) \<Rightarrow> closeSubscription k (refreshError op2)
                         | (Inr u, op2) \<Rightarrow>
                             (case refreshBalancesBegin wallets False op2 of
                                (temporalWallets, op3) \<Rightarrow>
                                  (let op4 = op3\<lparr>subscriptions :=
                                         (subscriptions op3)[k := Running wallets temporalWallets]\<rparr>
                                   in if wallets = [] then passEnds node k op4 else op4))))
            | _ \<Rightarrow> op)
      else op)"

text \<open>The public \<^verbatim>\<open>refreshBalance\<close>, and the callback for a new list of wallets.\<close>

definition refreshBalance :: "EthBalanceAndOutputsOperator \<Rightarrow> EthBalanceAndOutputsOperator" where
  "refreshBalance op = startDataRefreshSubscription 0 False op"

definition walletsChanged ::
  "AddressBase list WalletBase list \<Rightarrow> EthBalanceAndOutputsOperator \<Rightarrow>
     EthBalanceAndOutputsOperator" where
  "walletsChanged wallets op =
     startDataRefreshSubscription 0 True (op\<lparr>savedWalletsList := Some wallets\<rparr>)"

text \<open>What happens to an operator, and a run of such events.\<close>

datatype Event =
  RefreshBalance
| WalletsChanged "AddressBase list WalletBase list"
| TimerFires Node nat
| PassEnds Node nat

fun step :: "Event \<Rightarrow> EthBalanceAndOutputsOperator \<Rightarrow> EthBalanceAndOutputsOperator" where
  "step RefreshBalance op = refreshBalance op"
| "step (WalletsChanged wallets) op = walletsChanged wallets op"
| "step (TimerFires node k) op = timerFires node k op"
| "step (PassEnds node k) op = passEnds node k op"

definition run :: "Event list \<Rightarrow> EthBalanceAndOutputsOperator \<Rightarrow> EthBalanceAndOutputsOperator" where
  "run events op = fold step events op"

section \<open>Reading the store\<close>

text \<open>
  The address objects of a wallet of the store, and the coins of wallets and addresses.
\<close>

definition walletAddressRefs :: "Store \<Rightarrow> ref \<Rightarrow> ref list" where
  "walletAddressRefs s wallet = addressArrays s (addresses (walletObjects s wallet))"

definition walletCoins :: "Store \<Rightarrow> ref \<Rightarrow> BigNumber" where
  "walletCoins s wallet = WalletWithBalance.coins (walletObjects s wallet)"

definition addressCoins :: "Store \<Rightarrow> ref \<Rightarrow> BigNumber" where
  "addressCoins s a = AddressWithBalance.coins (addressObjects s a)"

text \<open>
  The wallets of the published list are different objects with different address objects,
  and the wallets and addresses of the pass are none of them.
\<close>

definition separated :: "Store \<Rightarrow> ref list \<Rightarrow> ref list \<Rightarrow> bool" where
  "separated s currentWallets temporalWallets =
     (distinct currentWallets
      \<and> distinct (concat (map (walletAddressRefs s) currentWallets))
      \<and> set currentWallets \<inter> set temporalWallets = {}
      \<and> set (concat (map (walletAddressRefs s) currentWallets)) \<inter>
          set (concat (map (walletAddressRefs s) temporalWallets)) = {})"

text \<open>
  A wallet of the published list that has the coins of the wallet of the pass, in the wallet
  and in every address.
\<close>

definition walletSame :: "Store \<Rightarrow> ref \<Rightarrow> ref \<Rightarrow> bool" where
  "walletSame s c t =
     (isEqualTo (walletCoins s c) (walletCoins s t)
      \<and> length (walletAddressRefs s c) = length (walletAddressRefs s t)
      \<and> list_all (\<lambda>j. isEqualTo (addressCoins s (walletAddressRefs s c ! j))
                       (addressCoins s (walletAddressRefs s t ! j)))
           [0..<length (walletAddressRefs s c)])"

text \<open>
  The published wallets \<open>ws\<close> and the wallets \<open>ts\<close> of the pass are as many, with the same
  ids and as many addresses at each position, and the coins are equal (for \<^verbatim>\<open>isEqualTo\<close>)
  in all the addresses but the address \<open>j0\<close> of the wallet \<open>i0\<close>, and in all the wallets
  but, possibly, the wallet \<open>i0\<close>.
\<close>

definition onlyOneAddressDiffers :: "Store \<Rightarrow> ref list \<Rightarrow> ref list \<Rightarrow> nat \<Rightarrow> nat \<Rightarrow> bool" where
  "onlyOneAddressDiffers s ws ts i0 j0 =
     (length ws = length ts \<and> i0 < length ws \<and> j0 < length (walletAddressRefs s (ws ! i0))
      \<and> list_all
           (\<lambda>i. id' (walletObjects s (ws ! i)) = id' (walletObjects s (ts ! i))
                \<and> length (walletAddressRefs s (ws ! i)) = length (walletAddressRefs s (ts ! i))
                \<and> (i = i0 \<or> isEqualTo (walletCoins s (ws ! i)) (walletCoins s (ts ! i)))
                \<and> list_all
                     (\<lambda>j. isEqualTo (addressCoins s (walletAddressRefs s (ws ! i) ! j))
                                (addressCoins s (walletAddressRefs s (ts ! i) ! j))
                          = (i \<noteq> i0 \<or> j \<noteq> j0))
                     [0..<length (walletAddressRefs s (ws ! i))])
           [0..<length ws])"

section \<open>Wallets as values\<close>

text \<open>
  A wallet of the store read with its addresses, and the value that the operator makes of
  a wallet of the wallets service and a balance: the coins of the wallet are the predicted
  balance, and the coins of an address are its predicted balance, or zero for an address
  that the balance does not have.
\<close>

definition walletView :: "Store \<Rightarrow> ref \<Rightarrow> AddressWithBalance list WalletWithBalance" where
  "walletView s wallet =
     \<lparr>id' = id' (walletObjects s wallet),
      label = label (walletObjects s wallet),
      encrypted = encrypted (walletObjects s wallet),
      isHardware = isHardware (walletObjects s wallet),
      addresses = map (addressObjects s) (walletAddressRefs s wallet),
      WalletWithBalance.coins = walletCoins s wallet\<rparr>"

definition coinsOf :: "WalletBalance \<Rightarrow> string \<Rightarrow> BigNumber" where
  "coinsOf balance a =
     (case WalletBalance.addresses balance a of
        Some addressBalance \<Rightarrow> predicted addressBalance
      | None \<Rightarrow> Num 0)"

definition withBalance ::
  "WalletBalance \<Rightarrow> AddressBase list WalletBase \<Rightarrow> AddressWithBalance list WalletWithBalance" where
  "withBalance balance wallet =
     \<lparr>id' = id' wallet, label = label wallet, encrypted = encrypted wallet,
      isHardware = isHardware wallet,
      addresses = map (\<lambda>a. \<lparr>address = address a,
                              AddressWithBalance.coins = coinsOf balance (address a)\<rparr>)
                    (addresses wallet),
      WalletWithBalance.coins = predicted balance\<rparr>"

text \<open>The published list, and the list of a pass, read as values.\<close>

definition listView :: "Store \<Rightarrow> ref \<Rightarrow> AddressWithBalance list WalletWithBalance list" where
  "listView s array = map (walletView s) (walletArrays s array)"

definition publishedView ::
  "EthBalanceAndOutputsOperator \<Rightarrow> AddressWithBalance list WalletWithBalance list option" where
  "publishedView op = map_option (listView (store op)) (walletsWithBalanceList op)"

text \<open>
  The balance that the saved data has for a wallet, and the balance that the node gives for
  it (with an error when a request fails).
\<close>

definition savedBalance ::
  "EthBalanceAndOutputsOperator \<Rightarrow> AddressBase list WalletBase \<Rightarrow> WalletBalance" where
  "savedBalance op wallet =
     (case balanceMaps (store op) (savedBalanceData op) (id' wallet) of
        Some balance \<Rightarrow> balance
      | None \<Rightarrow> newWalletBalance)"

definition nodeBalance ::
  "Coin \<Rightarrow> Node \<Rightarrow> AddressBase list WalletBase \<Rightarrow> RpcError + WalletBalance" where
  "nodeBalance coin node wallet = snd (nodeQuery coin node (map address (addresses wallet)))"

text \<open>Two stores with the same objects below a reference.\<close>

definition agreeBelow :: "ref \<Rightarrow> Store \<Rightarrow> Store \<Rightarrow> bool" where
  "agreeBelow n s s' =
     (\<forall>r<n. walletArrays s' r = walletArrays s r \<and> walletObjects s' r = walletObjects s r
           \<and> addressArrays s' r = addressArrays s r \<and> addressObjects s' r = addressObjects s r
           \<and> balanceMaps s' r = balanceMaps s r)"

text \<open>
  Two stores that differ in nothing but coins of wallets and addresses and the maps of
  balances.
\<close>

definition coinsOnly :: "Store \<Rightarrow> Store \<Rightarrow> bool" where
  "coinsOnly s s' =
     (walletArrays s' = walletArrays s \<and> addressArrays s' = addressArrays s
      \<and> nextRef s' = nextRef s
      \<and> (\<forall>r. walletObjects s' r =
                (walletObjects s r)\<lparr>WalletWithBalance.coins := walletCoins s' r\<rparr>)
      \<and> (\<forall>r. addressObjects s' r =
                (addressObjects s r)\<lparr>AddressWithBalance.coins := addressCoins s' r\<rparr>))"

text \<open>
  The store after the last step of \<^verbatim>\<open>retrieveWalletBalance\<close> for a wallet, and a wallet
  value with the coins of a balance.
\<close>

definition walletStep :: "WalletBalance \<Rightarrow> ref \<Rightarrow> ref \<Rightarrow> Store \<Rightarrow> Store" where
  "walletStep balance wallet temporal s =
     fold (setCoinsFromBalance balance) (walletAddressRefs s wallet)
       (setWalletCoins wallet (predicted balance)
          (setBalance temporal (id' (walletObjects s wallet)) balance s))"

definition applyBalance ::
  "WalletBalance \<Rightarrow> AddressWithBalance list WalletWithBalance \<Rightarrow>
     AddressWithBalance list WalletWithBalance" where
  "applyBalance balance v =
     v\<lparr>addresses := map (\<lambda>a. a\<lparr>AddressWithBalance.coins := coinsOf balance (address a)\<rparr>)
                       (addresses v),
       WalletWithBalance.coins := predicted balance\<rparr>"

text \<open>
  The observable of \<^verbatim>\<open>retrieveWalletBalance\<close> in one form for the two kinds of pass: a
  query \<open>q\<close> for the balance, the last step, and the signal \<open>f\<close> that it returns.
\<close>

definition balanceObservable ::
  "(EthBalanceAndOutputsOperator \<Rightarrow> ref \<Rightarrow> RpcError + WalletBalance) \<Rightarrow>
   (WalletBalance \<Rightarrow> EthBalanceAndOutputsOperator \<Rightarrow> bool) \<Rightarrow> ref \<Rightarrow> bool Observable" where
  "balanceObservable q f wallet =
     (\<lambda>op. case q op wallet of
             Inl e \<Rightarrow> (Inl e, op)
           | Inr balance \<Rightarrow>
               (Inr (f balance op),
                op\<lparr>store := walletStep balance wallet (temporalSavedBalanceData op) (store op)\<rparr>))"

text \<open>
  A query and a signal that give the same for two operators of which the stores differ in
  coins and balances only.
\<close>

definition stableQuery ::
  "(EthBalanceAndOutputsOperator \<Rightarrow> ref \<Rightarrow> RpcError + WalletBalance) \<Rightarrow>
   (WalletBalance \<Rightarrow> EthBalanceAndOutputsOperator \<Rightarrow> bool) \<Rightarrow> bool" where
  "stableQuery q f =
     (\<forall>op s. coinsOnly (store op) s \<longrightarrow>
        (\<forall>wallet. q (op\<lparr>store := s\<rparr>) wallet = q op wallet)
        \<and> (\<forall>balance. f balance (op\<lparr>store := s\<rparr>) = f balance op))"

section \<open>The published list in the store\<close>

text \<open>
  The wallets of the published list are different objects, and the list and its wallets
  were made before the next reference of the store.
\<close>

definition publishedWellFormed :: "EthBalanceAndOutputsOperator \<Rightarrow> bool" where
  "publishedWellFormed op =
     (case walletsWithBalanceList op of
        None \<Rightarrow> True
      | Some published \<Rightarrow>
          published < nextRef (store op)
          \<and> distinct (walletArrays (store op) published)
          \<and> list_all (\<lambda>w. w < nextRef (store op)) (walletArrays (store op) published))"

text \<open>
  The sum of a list of \<^verbatim>\<open>BigNumber\<close> values, and the confirmed balance that a balance of a
  wallet has for an address (zero for an address that it does not have).
\<close>

definition sumBigNumbers :: "BigNumber list \<Rightarrow> BigNumber" where
  "sumBigNumbers xs = foldl plus (Num 0) xs"

definition currentOf :: "WalletBalance \<Rightarrow> string \<Rightarrow> BigNumber" where
  "currentOf balance a =
     (case WalletBalance.addresses balance a of
        Some addressBalance \<Rightarrow> current addressBalance
      | None \<Rightarrow> Num 0)"

text \<open>The wallets of which the node answers every request of the balance.\<close>

definition allBalancesAnswered :: "Coin \<Rightarrow> Node \<Rightarrow> AddressBase list WalletBase list \<Rightarrow> bool" where
  "allBalancesAnswered coin node wallets =
     list_all (\<lambda>wallet. \<not> isl (nodeBalance coin node wallet)) wallets"

text \<open>The signal of pending transactions of a balance.\<close>

definition hasPendingTx :: "WalletBalance \<Rightarrow> bool" where
  "hasPendingTx balance = (\<not> isEqualTo (current balance) (predicted balance))"

text \<open>
  Every object of the published list, down to the addresses, was made before the next
  reference of the store.
\<close>

definition publishedAllocated :: "EthBalanceAndOutputsOperator \<Rightarrow> bool" where
  "publishedAllocated op =
     (case walletsWithBalanceList op of
        None \<Rightarrow> True
      | Some published \<Rightarrow>
          published < nextRef (store op)
          \<and> list_all (\<lambda>w. w < nextRef (store op)
                          \<and> addresses (walletObjects (store op) w) < nextRef (store op)
                          \<and> list_all (\<lambda>a. a < nextRef (store op))
                                (walletAddressRefs (store op) w))
                (walletArrays (store op) published))"

text \<open>The operator when the network pass of a subscription begins.\<close>

definition networkPassBegins ::
  "Node \<Rightarrow> AddressBase list WalletBase list \<Rightarrow> bool \<Rightarrow> EthBalanceAndOutputsOperator \<Rightarrow>
     EthBalanceAndOutputsOperator" where
  "networkPassBegins node wallets updateWalletsFirst op =
     (let op1 = op\<lparr>refreshingBalanceSubject := refreshingBalanceSubject op @ [True]\<rparr>
      in if updateWalletsFirst then snd (refreshBalances node wallets True op1) else op1)"

text \<open>
  Before the first network pass that succeeds, the saved data is an empty map which is not
  the map that the passes write.
\<close>

definition cacheUntouched :: "EthBalanceAndOutputsOperator \<Rightarrow> bool" where
  "cacheUntouched op =
     (last (firstFullUpdateMadeSubject op)
      \<or> (savedBalanceData op \<noteq> temporalSavedBalanceData op
         \<and> savedBalanceData op < nextRef (store op)
         \<and> balanceMaps (store op) (savedBalanceData op) = Map.empty))"

text \<open>
  At most one subscription is not closed, and it is the one that the operator holds in
  \<^verbatim>\<open>dataRefreshSubscription\<close>.
\<close>

definition oneChain :: "EthBalanceAndOutputsOperator \<Rightarrow> bool" where
  "oneChain op =
     ((case dataRefreshSubscription op of
         None \<Rightarrow> True
       | Some k \<Rightarrow> k < length (subscriptions op))
      \<and> list_all (\<lambda>j. subscriptions op ! j = Closed \<or> dataRefreshSubscription op = Some j)
           [0..<length (subscriptions op)])"

text \<open>The events of the subscription \<open>k\<close>.\<close>

fun onChain :: "nat \<Rightarrow> Event \<Rightarrow> bool" where
  "onChain k (TimerFires node j) = (j = k)"
| "onChain k (PassEnds node j) = (j = k)"
| "onChain k RefreshBalance = False"
| "onChain k (WalletsChanged wallets) = False"

section \<open>An example: a node, a coin and the wallet W\<close>

text \<open>
  The coin has one decimal and needs three confirmations; the chain is at block 10. The
  node holds 50 units for the address A1, confirmed and pending, and for A2 30 units
  confirmed and 40 pending.
\<close>

definition exampleCoin :: Coin where
  "exampleCoin = \<lparr>nodeUrl = ''http://node'', isLocal = True, confirmationsNeeded = 3, decimals = 1\<rparr>"

definition exampleNode :: Node where
  "exampleNode request =
     (if rpcMethod request = ''eth_blockNumber'' then Inr ''0xa''
      else if params request = [Str ''A1'', Str ''pending''] then Inr ''0x32''
      else if params request = [Str ''A1'', Str ''0x8''] then Inr ''0x32''
      else if params request = [Str ''A2'', Str ''pending''] then Inr ''0x28''
      else if params request = [Str ''A2'', Str ''0x8''] then Inr ''0x1e''
      else Inl RpcError)"

text \<open>
  The wallet W with the addresses A1 and A2, and an operator that has published it: the
  array 6 with the wallet object 5, which has 9 coins, 5 in A1 and 4 in A2. The array 11
  is the copy of a later pass, in which the node has found 7 coins in A2.
\<close>

definition exampleWallet :: "AddressBase list WalletBase" where
  "exampleWallet =
     \<lparr>id' = ''W'', label = ''wallet W'', encrypted = False, isHardware = False,
      addresses = [\<lparr>address = ''A1''\<rparr>, \<lparr>address = ''A2''\<rparr>]\<rparr>"

definition exampleWalletObject :: "ref \<Rightarrow> BigNumber \<Rightarrow> ref WalletWithBalance" where
  "exampleWalletObject array c =
     \<lparr>id' = ''W'', label = ''wallet W'', encrypted = False, isHardware = False,
      addresses = array, WalletWithBalance.coins = c\<rparr>"

definition exampleStore :: Store where
  "exampleStore =
     \<lparr>walletArrays = (\<lambda>r. [])(6 := [5], 11 := [10]),
      walletObjects = (walletObjects emptyStore)
        (5 := exampleWalletObject 4 (Num 9), 10 := exampleWalletObject 9 (Num 12)),
      addressArrays = (\<lambda>r. [])(4 := [2, 3], 9 := [7, 8]),
      addressObjects = (addressObjects emptyStore)
        (2 := \<lparr>address = ''A1'', AddressWithBalance.coins = Num 5\<rparr>,
         3 := \<lparr>address = ''A2'', AddressWithBalance.coins = Num 4\<rparr>,
         7 := \<lparr>address = ''A1'', AddressWithBalance.coins = Num 5\<rparr>,
         8 := \<lparr>address = ''A2'', AddressWithBalance.coins = Num 7\<rparr>),
      balanceMaps = (\<lambda>r. Map.empty),
      nextRef = 12\<rparr>"

definition exampleOperator :: EthBalanceAndOutputsOperator where
  "exampleOperator =
     (newEthBalanceAndOutputsOperator exampleCoin)
       \<lparr>store := exampleStore,
        walletsWithBalanceList := Some 6,
        walletsWithBalanceSubject := [Some 6]\<rparr>"

text \<open>
  The operator of the example after the wallet service has given it the wallet W and
  \<^verbatim>\<open>refreshBalance\<close> has been called: the subscription 0 waits. The second node fails the
  request of the confirmed balance of A1 and answers the others.
\<close>

definition exampleWaiting :: EthBalanceAndOutputsOperator where
  "exampleWaiting = refreshBalance (exampleOperator\<lparr>savedWalletsList := Some [exampleWallet]\<rparr>)"

definition exampleFailingNode :: Node where
  "exampleFailingNode request =
     (if params request = [Str ''A1'', Str ''0x8''] then Inl RpcError else exampleNode request)"

text \<open>A new operator to which the wallet service has given the wallet W.\<close>

definition exampleStarted :: EthBalanceAndOutputsOperator where
  "exampleStarted = run [WalletsChanged [exampleWallet]] (newEthBalanceAndOutputsOperator exampleCoin)"

text \<open>
  A coin with 21 decimals, and a node that gives the height 10 and answers \<^verbatim>\<open>0x1\<close> to
  every other request.
\<close>

definition exampleFineCoin :: Coin where
  "exampleFineCoin = exampleCoin\<lparr>decimals := 21\<rparr>"

definition exampleDustNode :: Node where
  "exampleDustNode request =
     (if rpcMethod request = ''eth_blockNumber'' then Inr ''0xa'' else Inr ''0x1'')"

section \<open>Hexadecimal round trip\<close>

lemma digitValue_digitChar: "d < 16 \<Longrightarrow> digitValue (digitChar d) = Some d"
proof -
  assume "d < 16"
  then have "d \<in> {0, 1, 2, 3, 4, 5, 6, 7, 8, 9, 10, 11, 12, 13, 14, 15}"
    by simp arith
  then show ?thesis
    by (auto simp: digitValue_def digitChar_def)
qed



lemma digitChar_not_minus: "d < 16 \<Longrightarrow> digitChar d \<noteq> CHR ''-'' \<and> digitCharUpper d \<noteq> CHR ''-''"
proof -
  assume "d < 16"
  then have "d \<in> {0, 1, 2, 3, 4, 5, 6, 7, 8, 9, 10, 11, 12, 13, 14, 15}"
    by simp arith
  then show ?thesis
    by (auto simp: digitChar_def digitCharUpper_def)
qed

lemma parseDigits_append:
  "parseDigits f acc (xs @ ys) =
     (case parseDigits f acc xs of None \<Rightarrow> None | Some a \<Rightarrow> parseDigits f a ys)"
  by (induction xs arbitrary: acc) (auto split: option.splits)







lemma natToString16_digits: "c \<in> set (natToString16 n) \<Longrightarrow> c \<noteq> CHR ''-''"
proof (induction n rule: natToString16.induct)
  case (1 n)
  show ?case
  proof (cases "n < 16")
    case True
    then show ?thesis
      using "1.prems" digitChar_not_minus [of n]
      by (subst (asm) natToString16.simps) simp
  next
    case False
    have "n mod 16 < 16" by simp
    then have "digitChar (n mod 16) \<noteq> CHR ''-''"
      using digitChar_not_minus by blast
    then show ?thesis
      using "1.prems" "1.IH" False
      by (subst (asm) natToString16.simps) auto
  qed
qed

lemma parseDigits_natToString16: "parseDigits digitValue 0 (natToString16 n) = Some n"
proof (induction n rule: natToString16.induct)
  case (1 n)
  show ?case
  proof (cases "n < 16")
    case True
    then show ?thesis
      by (subst natToString16.simps) (simp add: digitValue_digitChar)
  next
    case False
    then have "parseDigits digitValue 0 (natToString16 (n div 16)) = Some (n div 16)"
      using 1 by simp
    with False show ?thesis
      by (subst natToString16.simps)
        (simp add: parseDigits_append digitValue_digitChar)
  qed
qed

lemma natToString16_nonempty: "natToString16 n \<noteq> []"
  by (subst natToString16.simps) simp

lemma hexToBigNumber_natToString16:
  "hexToBigNumber (CHR ''0'' # CHR ''x'' # natToString16 n) = Num (of_nat n)"
proof -
  have "hd (natToString16 n) \<noteq> CHR ''-''"
    using natToString16_nonempty [of n] natToString16_digits [of "hd (natToString16 n)" n]
    by (metis list.set_sel(1))
  then show ?thesis
    by (simp add: hexToBigNumber_def bigNumberBase16_def digitsBase16_def
        parseDigits_natToString16)
qed

section \<open>The numbers that are exact\<close>

lemma bitLength_bounds: "0 < n \<Longrightarrow> 2 ^ (bitLength n - 1) \<le> n \<and> n < 2 ^ bitLength n"
proof (induction n rule: bitLength.induct)
  case (1 n)
  have b: "bitLength n = Suc (bitLength (n div 2))"
    using "1.prems" by (subst bitLength.simps) simp
  show ?case
  proof (cases "n div 2 = 0")
    case True
    then have n1: "n = 1" using "1.prems" by presburger
    have "bitLength 0 = 0" by (subst bitLength.simps) simp
    then have "bitLength n = 1" using b True by simp
    then show ?thesis by (simp add: n1)
  next
    case False
    then have pos: "0 < n div 2" by simp
    with "1.prems" "1.IH"
    have IH: "2 ^ (bitLength (n div 2) - 1) \<le> n div 2" "n div 2 < 2 ^ bitLength (n div 2)"
      by simp_all
    have one: "1 \<le> bitLength (n div 2)"
      using pos by (subst bitLength.simps) simp
    then have "(2 :: nat) ^ bitLength (n div 2) = 2 * 2 ^ (bitLength (n div 2) - 1)"
      by (cases "bitLength (n div 2)") simp_all
    then have low: "2 ^ bitLength (n div 2) \<le> n"
      using IH(1) by presburger
    have "n < 2 * 2 ^ bitLength (n div 2)"
      using IH(2) by presburger
    then show ?thesis
      using low by (simp add: b)
  qed
qed

lemma bitLength_eq:
  assumes "2 ^ k \<le> n" "n < 2 ^ Suc k"
  shows "bitLength n = Suc k"
proof -
  have n: "0 < n" using assms(1) by (metis less_le_trans zero_less_numeral zero_less_power)
  note B = bitLength_bounds [OF n]
  have "k < bitLength n"
    using assms(1) B by (metis le_less_trans power_less_imp_less_exp one_less_numeral_iff semiring_norm(76))
  moreover have "bitLength n - 1 < Suc k"
    using assms(2) B by (metis le_less_trans power_less_imp_less_exp one_less_numeral_iff semiring_norm(76))
  ultimately show ?thesis by simp
qed

lemma floorLog2_nat:
  assumes "0 < n"
  shows "floorLog2 (of_nat n) = int (bitLength n) - 1"
proof -
  have "quotient_of (of_int (int n)) = (int n, 1)"
    by (rule Rat.quotient_of_rat_of_int)
  then have q: "quotient_of (of_nat n :: rat) = (int n, 1)"
    by simp
  have one: "bitLength (Suc 0) = Suc 0"
    using bitLength_eq [of 0 1] by simp
  have pos: "1 \<le> bitLength n"
    using assms by (subst bitLength.simps) simp
  have "(2 :: nat) ^ (bitLength n - 1) \<le> n"
    using bitLength_bounds [OF assms] by simp
  then have "(of_nat (2 ^ (bitLength n - 1)) :: rat) \<le> of_nat n"
    using of_nat_le_iff by blast
  then have "pow2 (int (bitLength n) - 1) \<le> of_nat n"
    using pos by (simp add: pow2_def nat_diff_distrib')
  then show ?thesis
    by (simp add: floorLog2_def q one Let_def)
qed

lemma roundHalfEven_int: "roundHalfEven (of_int k) = k"
  by (simp add: roundHalfEven_def)

lemma nearestDouble_nat:
  assumes "n \<le> 2 ^ 53"
  shows "nearestDouble (of_nat n) = of_nat n"
proof (cases "n = 0")
  case True
  then show ?thesis by (simp add: nearestDouble_def)
next
  case False
  then have n: "0 < n" by simp
  show ?thesis
  proof (cases "n < 2 ^ 53")
    case True
    have "bitLength n - 1 < 53"
      using bitLength_bounds [OF n] True
      by (metis le_less_trans power_less_imp_less_exp one_less_numeral_iff semiring_norm(76))
    then have b: "bitLength n \<le> 53" by simp
    have pos: "1 \<le> bitLength n"
      using n by (subst bitLength.simps) simp
    define j where "j = 53 - bitLength n"
    have a: "\<bar>of_nat n :: rat\<bar> = of_nat n" by simp
    have u: "max (floorLog2 (of_nat n) - 52) (- 1074) = - int j"
      using b pos by (simp add: floorLog2_nat [OF n] j_def)
    have p: "pow2 (- int j) = 1 / 2 ^ j"
      by (cases "j = 0") (simp_all add: pow2_def)
    have "(of_nat n :: rat) / pow2 (- int j) = of_int (int n * 2 ^ j)"
      by (simp add: p)
    then have r: "roundHalfEven (of_nat n / pow2 (- int j)) = int n * 2 ^ j"
      by (simp only: roundHalfEven_int)
    show ?thesis
      unfolding nearestDouble_def Let_def a u r
      using False by (simp add: p)
  next
    case False
    then have n53: "n = 2 ^ 53" using assms by simp
    have bl: "bitLength n = 54"
      using bitLength_eq [of 53 n] by (simp add: n53)
    have a: "\<bar>of_nat n :: rat\<bar> = of_nat n" by simp
    have u: "max (floorLog2 (of_nat n) - 52) (- 1074) = 1"
      by (simp add: floorLog2_nat [OF n] bl)
    have "(of_nat n :: rat) / pow2 1 = of_int (2 ^ 52)"
      by (simp add: pow2_def n53)
    then have r: "roundHalfEven (of_nat n / pow2 1) = 2 ^ 52"
      by (simp only: roundHalfEven_int)
    show ?thesis
      unfolding nearestDouble_def Let_def a u r
      by (simp add: pow2_def n53)
  qed
qed

lemma toNumber_nat: "n \<le> 2 ^ 53 \<Longrightarrow> toNumber (Num (of_nat n)) = Num (of_nat n)"
  by (simp add: nearestDouble_nat)

lemma roundHalfUp_exact:
  assumes "d \<le> places"
  shows "roundHalfUp places (of_nat n / 10 ^ d) = of_nat n / 10 ^ d"
proof -
  have nonneg: "\<not> (of_nat n / 10 ^ d :: rat) < 0"
    by (simp add: not_less)
  have p: "(10 :: rat) ^ places = 10 ^ d * 10 ^ (places - d)"
    using assms by (metis le_add_diff_inverse power_add)
  have "\<bar>of_nat n / 10 ^ d :: rat\<bar> * 10 ^ places = of_int (int n * 10 ^ (places - d))"
    by (simp add: p)
  moreover have "\<lfloor>of_int (int n * 10 ^ (places - d)) + (1 / 2 :: rat)\<rfloor> =
      int n * 10 ^ (places - d)"
    by (rule floor_unique) simp_all
  ultimately have "\<lfloor>\<bar>of_nat n / 10 ^ d :: rat\<bar> * 10 ^ places + 1 / 2\<rfloor> =
      int n * 10 ^ (places - d)"
    by (simp only:)
  then show ?thesis
    using nonneg by (simp add: roundHalfUp_def p)
qed

lemma roundHalfUp_int: "roundHalfUp places (of_int k) = of_int k"
proof -
  have "\<bar>of_int k :: rat\<bar> * 10 ^ places = of_int (\<bar>k\<bar> * 10 ^ places)"
    by simp
  moreover have "\<lfloor>of_int (\<bar>k\<bar> * 10 ^ places) + (1 / 2 :: rat)\<rfloor> = \<bar>k\<bar> * 10 ^ places"
    by (rule floor_unique) simp_all
  ultimately have "\<lfloor>\<bar>of_int k :: rat\<bar> * 10 ^ places + 1 / 2\<rfloor> = \<bar>k\<bar> * 10 ^ places"
    by (simp only:)
  then show ?thesis
    by (simp add: roundHalfUp_def)
qed

lemma roundHalfUp_numeral: "roundHalfUp places (numeral k) = numeral k"
  using roundHalfUp_int [of places "numeral k"] by simp

lemma dividedBy_exact:
  "d \<le> 20 \<Longrightarrow> dividedBy (Num (of_nat n)) (decimalsCorrector d) = Num (of_nat n / 10 ^ d)"
  by (simp add: decimalsCorrector_def decimalPlaces_def roundHalfUp_exact)

section \<open>The balances of a list of addresses\<close>

lemma recursivelyGetBalances_Nil:
  "recursivelyGetBalances coin node [] h m =
     (case fetchBalance coin node h Undefined of
        (sent, Inl e) \<Rightarrow> (sent, Inl e)
      | (sent, Inr b) \<Rightarrow> (sent, Inr (m(Undefined \<mapsto> b))))"
  by (subst recursivelyGetBalances.simps)
    (simp add: fetchBalance_def Let_def split: sum.splits)

lemma recursivelyGetBalances_snoc:
  "recursivelyGetBalances coin node (xs @ [a]) h m =
     (case fetchBalance coin node h (Str a) of
        (sent, Inl e) \<Rightarrow> (sent, Inl e)
      | (sent, Inr b) \<Rightarrow>
          if xs = [] then (sent, Inr (m(Str a \<mapsto> b)))
          else (case recursivelyGetBalances coin node xs h (m(Str a \<mapsto> b)) of
                  (sent', result) \<Rightarrow> (sent @ sent', result)))"
  by (subst recursivelyGetBalances.simps)
    (auto simp add: fetchBalance_def Let_def split: sum.splits prod.splits)


lemma RpcError_eq [simp]: "(e :: RpcError) = e'"
  by (cases e, cases e') simp

lemma fetchBalance_sent_ok:
  "fetchBalance coin node h a = (sent, Inr b) \<Longrightarrow> sent = requestsFor coin h a"
  by (auto simp: fetchBalance_def requestsFor_def split: sum.splits)

lemma fetchBalance_sent_prefix:
  "prefix (fst (fetchBalance coin node h a)) (requestsFor coin h a)"
  by (auto simp: fetchBalance_def requestsFor_def split: sum.splits)

lemma recursivelyGetBalances_result:
  "xs \<noteq> [] \<Longrightarrow>
   snd (recursivelyGetBalances coin node xs h m) =
     (if allAnswered coin node h xs then Inr (fetchedMap coin node h xs m) else Inl RpcError)"
proof (induction xs arbitrary: m rule: rev_nonempty_induct)
  case (single a)
  show ?case
    using recursivelyGetBalances_snoc [of coin node "[]" a h m]
    by (auto simp: allAnswered_def fetchedMap_def fun_eq_iff
        split: prod.splits sum.splits JsString.splits)
next
  case (snoc a xs)
  show ?case
  proof (cases "snd (fetchBalance coin node h (Str a))")
    case (Inl e)
    then show ?thesis
      by (auto simp: recursivelyGetBalances_snoc allAnswered_def split: prod.splits sum.splits)
  next
    case (Inr b)
    then have "snd (recursivelyGetBalances coin node (xs @ [a]) h m) =
        snd (recursivelyGetBalances coin node xs h (m(Str a \<mapsto> b)))"
      using snoc.hyps by (auto simp: recursivelyGetBalances_snoc split: prod.splits sum.splits)
    also have "\<dots> = (if allAnswered coin node h xs
        then Inr (fetchedMap coin node h xs (m(Str a \<mapsto> b))) else Inl RpcError)"
      by (rule snoc.IH)
    also have "\<dots> = (if allAnswered coin node h (xs @ [a])
        then Inr (fetchedMap coin node h (xs @ [a]) m) else Inl RpcError)"
      using Inr
      by (auto simp: allAnswered_def fetchedMap_def fun_eq_iff split: JsString.splits sum.splits)
    finally show ?thesis .
  qed
qed


lemma fetchBalance_cases:
  obtains (failed) sent e where "fetchBalance coin node h a = (sent, Inl e)"
      and "prefix sent (requestsFor coin h a)"
    | (answered) b where "fetchBalance coin node h a = (requestsFor coin h a, Inr b)"
proof (cases "fetchBalance coin node h a")
  case (Pair sent r)
  show ?thesis
  proof (cases r)
    case (Inl e)
    with Pair failed fetchBalance_sent_prefix [of coin node h a] show ?thesis by simp
  next
    case (Inr b)
    with Pair answered fetchBalance_sent_ok [of coin node h a sent b] show ?thesis by simp
  qed
qed

lemma recursivelyGetBalances_sent:
  "xs \<noteq> [] \<Longrightarrow> allAnswered coin node h xs \<Longrightarrow>
   fst (recursivelyGetBalances coin node xs h m) = concat (map (requestsFor coin h \<circ> Str) (rev xs))"
proof (induction xs arbitrary: m rule: rev_nonempty_induct)
  case (single a)
  show ?case
  proof (cases rule: fetchBalance_cases [of coin node h "Str a"])
    case (failed sent e)
    with single show ?thesis by (simp add: allAnswered_def)
  next
    case (answered b)
    then show ?thesis
      using recursivelyGetBalances_snoc [of coin node "[]" a h m] by simp
  qed
next
  case (snoc a xs)
  from snoc.prems have xs: "allAnswered coin node h xs"
    by (simp add: allAnswered_def)
  show ?case
  proof (cases rule: fetchBalance_cases [of coin node h "Str a"])
    case (failed sent e)
    with snoc.prems show ?thesis by (simp add: allAnswered_def)
  next
    case (answered b)
    then show ?thesis
      using snoc.hyps snoc.IH [OF xs]
      by (simp add: recursivelyGetBalances_snoc case_prod_beta)
  qed
qed

lemma recursivelyGetBalances_sent_prefix:
  "xs \<noteq> [] \<Longrightarrow>
   prefix (fst (recursivelyGetBalances coin node xs h m))
     (concat (map (requestsFor coin h \<circ> Str) (rev xs)))"
proof (induction xs arbitrary: m rule: rev_nonempty_induct)
  case (single a)
  show ?case
    using recursivelyGetBalances_snoc [of coin node "[]" a h m]
    by (cases rule: fetchBalance_cases [of coin node h "Str a"]) simp_all
next
  case (snoc a xs)
  show ?case
  proof (cases rule: fetchBalance_cases [of coin node h "Str a"])
    case (failed sent e)
    then show ?thesis
      by (simp add: recursivelyGetBalances_snoc prefix_prefix)
  next
    case (answered b)
    then show ?thesis
      using snoc.hyps snoc.IH
      by (simp add: recursivelyGetBalances_snoc case_prod_beta)
  qed
qed


lemma plus_right_commute: "plus (plus a b) c = plus (plus a c) b"
  by (cases a; cases b; cases c) simp_all

lemma addAddressBalance_commute:
  "addAddressBalance r x (addAddressBalance r y balance) =
   addAddressBalance r y (addAddressBalance r x balance)"
  by (cases "x = y") (auto simp: addAddressBalance_def Let_def plus_right_commute fun_upd_twist)

lemma fold_addAddressBalance_mset:
  assumes "mset xs = mset ys"
  shows "fold (addAddressBalance r) xs balance = fold (addAddressBalance r) ys balance"
proof -
  have "fold (addAddressBalance r) xs = fold (addAddressBalance r) ys"
    by (rule fold_multiset_equiv) (auto simp: fun_eq_iff addAddressBalance_commute assms)
  then show ?thesis by simp
qed

lemma allAnswered_set: "set xs = set ys \<Longrightarrow> allAnswered coin node h xs = allAnswered coin node h ys"
  by (simp add: allAnswered_def list_all_iff)

lemma fetchedMap_set: "set xs = set ys \<Longrightarrow> fetchedMap coin node h xs m = fetchedMap coin node h ys m"
  by (auto simp: fetchedMap_def fun_eq_iff split: JsString.splits)

lemma recursivelyGetBalances_mset:
  assumes "mset xs = mset ys"
  shows "snd (recursivelyGetBalances coin node xs h m) = snd (recursivelyGetBalances coin node ys h m)"
proof (cases "xs = []")
  case True
  with assms show ?thesis by simp
next
  case False
  with assms have ys: "ys \<noteq> []" by auto
  from assms have "set xs = set ys" by (rule mset_eq_setD)
  with False ys show ?thesis
    by (simp add: recursivelyGetBalances_result allAnswered_set [of xs ys] fetchedMap_set [of xs ys])
qed

lemma fetchedMap_defined:
  "allAnswered coin node h xs \<Longrightarrow>
   (fetchedMap coin node h xs Map.empty k \<noteq> None) = (k \<in> Str ` set xs)"
proof (cases k)
  case Undefined
  then show ?thesis by (auto simp: fetchedMap_def)
next
  case (Str a)
  assume "allAnswered coin node h xs"
  then have "a \<in> set xs \<Longrightarrow> \<exists>b. snd (fetchBalance coin node h (Str a)) = Inr b"
    by (cases "snd (fetchBalance coin node h (Str a))") (auto simp: allAnswered_def list_all_iff)
  with Str show ?thesis by (auto simp: fetchedMap_def)
qed

lemma dom_fetchedMap:
  "allAnswered coin node h xs \<Longrightarrow> dom (fetchedMap coin node h xs Map.empty) = Str ` set xs"
  using fetchedMap_defined [of coin node h xs] by (auto simp: dom_def)

lemma length_concat_requestsFor:
  "length (concat (map (requestsFor coin h \<circ> Str) xs)) = 2 * length xs"
  by (induction xs) (simp_all add: requestsFor_def)

lemma blockForLastConfirmedBalance_height:
  "blockForLastConfirmedBalance coin (Num (of_nat height)) =
     Num (of_int (max 0 (int height - (confirmationsNeeded coin - 1))))"
proof -
  have "(rat_of_nat height - rat_of_int (confirmationsNeeded coin - 1) < 0) =
      (int height - (confirmationsNeeded coin - 1) < 0)"
    by (metis of_int_diff of_int_less_0_iff of_int_of_nat_eq)
  then show ?thesis
    by (auto simp: blockForLastConfirmedBalance_def Let_def max_def)
qed

lemma toString16_of_int: "0 \<le> k \<Longrightarrow> toString16 (Num (of_int k)) = natToString16 (nat k)"
  by simp

lemma confirmedBalanceRequest_height:
  "confirmedBalanceRequest coin (Num (of_nat height)) a =
     \<lparr>url = nodeUrl coin, rpcMethod = ''eth_getBalance'',
      params = [a, Str (''0x'' @
        natToString16 (nat (max 0 (int height - (confirmationsNeeded coin - 1)))))]\<rparr>"
  unfolding confirmedBalanceRequest_def blockForLastConfirmedBalance_height
  by (simp add: toString16_of_int del: toString16.simps)

lemma addresses_fold_addAddressBalance:
  "WalletBalance.addresses (fold (addAddressBalance r) xs balance) =
     (\<lambda>a. if a \<in> set xs
          then Some (case r (Str a) of Some b \<Rightarrow> b | None \<Rightarrow> newAddressBalance)
          else WalletBalance.addresses balance a)"
  by (induction xs arbitrary: balance) (auto simp: addAddressBalance_def Let_def fun_eq_iff)

lemma nodeQuery_Inr:
  assumes "nodeQuery coin node addrs = (sent, Inr balance)"
  obtains result sent' m where "node (blockNumberRequest coin) = Inr result"
    and "recursivelyGetBalances coin node addrs (toNumber (hexToBigNumber result)) Map.empty =
          (sent', Inr m)"
    and "sent = blockNumberRequest coin # sent'"
    and "balance = fold (addAddressBalance m) addrs newWalletBalance"
  using assms by (auto simp: nodeQuery_def Let_def split: sum.splits prod.splits)

section \<open>The example evaluated\<close>

lemma ex_requests:
  "blockNumberRequest exampleCoin =
     \<lparr>url = ''http://node'', rpcMethod = ''eth_blockNumber'', params = []\<rparr>"
  "pendingBalanceRequest exampleCoin a =
     \<lparr>url = ''http://node'', rpcMethod = ''eth_getBalance'', params = [a, Str ''pending'']\<rparr>"
  "confirmedBalanceRequest exampleCoin (Num 10) a =
     \<lparr>url = ''http://node'', rpcMethod = ''eth_getBalance'', params = [a, Str ''0x8'']\<rparr>"
  by (simp_all add: exampleCoin_def blockNumberRequest_def
      pendingBalanceRequest_def confirmedBalanceRequest_def blockForLastConfirmedBalance_def
      natToString16.simps digitChar_def)

lemma ex_height: "toNumber (hexToBigNumber ''0xa'') = Num 10"
proof -
  have "hexToBigNumber ''0xa'' = Num (of_nat 10)"
    by (simp add: hexToBigNumber_def bigNumberBase16_def digitsBase16_def digitValue_def)
  then show ?thesis
    using toNumber_nat [of 10] by simp
qed

lemma ex_fetchBalance:
  "fetchBalance exampleCoin exampleNode (Num 10) (Str ''A1'') =
     (requestsFor exampleCoin (Num 10) (Str ''A1''),
      Inr \<lparr>current = Num 5, predicted = Num 5\<rparr>)"
  "fetchBalance exampleCoin exampleNode (Num 10) (Str ''A2'') =
     (requestsFor exampleCoin (Num 10) (Str ''A2''),
      Inr \<lparr>current = Num 3, predicted = Num 4\<rparr>)"
proof -
  have h: "hexToBigNumber ''0x32'' = Num (of_nat 50)" "hexToBigNumber ''0x28'' = Num (of_nat 40)"
    "hexToBigNumber ''0x1e'' = Num (of_nat 30)"
    by (simp_all add: hexToBigNumber_def bigNumberBase16_def digitsBase16_def digitValue_def)
  have d: "decimals exampleCoin = 1"
    by (simp add: exampleCoin_def)
  show "fetchBalance exampleCoin exampleNode (Num 10) (Str ''A1'') =
     (requestsFor exampleCoin (Num 10) (Str ''A1''),
      Inr \<lparr>current = Num 5, predicted = Num 5\<rparr>)"
    "fetchBalance exampleCoin exampleNode (Num 10) (Str ''A2'') =
     (requestsFor exampleCoin (Num 10) (Str ''A2''),
      Inr \<lparr>current = Num 3, predicted = Num 4\<rparr>)"
    by (simp_all add: fetchBalance_def requestsFor_def ex_requests exampleNode_def h d
        decimalsCorrector_def decimalPlaces_def roundHalfUp_numeral)
qed

lemma ex_recursivelyGetBalances:
  "recursivelyGetBalances exampleCoin exampleNode [''A1'', ''A2''] (Num 10) Map.empty =
     (requestsFor exampleCoin (Num 10) (Str ''A2'') @
      requestsFor exampleCoin (Num 10) (Str ''A1''),
      Inr [Str ''A2'' \<mapsto> \<lparr>current = Num 3, predicted = Num 4\<rparr>,
           Str ''A1'' \<mapsto> \<lparr>current = Num 5, predicted = Num 5\<rparr>])"
  using recursivelyGetBalances_snoc [of exampleCoin exampleNode "[''A1'']" "''A2''" "Num 10"
      Map.empty]
    recursivelyGetBalances_snoc [of exampleCoin exampleNode "[]" "''A1''" "Num 10"
      "[Str ''A2'' \<mapsto> \<lparr>current = Num 3, predicted = Num 4\<rparr>]"]
  by (simp add: ex_fetchBalance)

lemma ex_nodeQuery:
  "nodeQuery exampleCoin exampleNode [''A1'', ''A2''] =
     ([blockNumberRequest exampleCoin,
       pendingBalanceRequest exampleCoin (Str ''A2''),
       confirmedBalanceRequest exampleCoin (Num 10) (Str ''A2''),
       pendingBalanceRequest exampleCoin (Str ''A1''),
       confirmedBalanceRequest exampleCoin (Num 10) (Str ''A1'')],
      Inr \<lparr>current = Num 8, predicted = Num 9,
           WalletBalance.addresses = [''A1'' \<mapsto> \<lparr>current = Num 5, predicted = Num 5\<rparr>,
                        ''A2'' \<mapsto> \<lparr>current = Num 3, predicted = Num 4\<rparr>]\<rparr>)"
proof -
  have h: "toNumber (hexToBigNumber ''0xa'') = Num 10"
    by (rule ex_height)
  have b: "exampleNode (blockNumberRequest exampleCoin) = Inr ''0xa''"
    by (simp add: ex_requests exampleNode_def)
  show ?thesis
    by (simp add: nodeQuery_def b h ex_recursivelyGetBalances requestsFor_def
        addAddressBalance_def newWalletBalance_def Let_def)
qed

lemma ex_allAnswered: "allAnswered exampleCoin exampleNode (Num 10) [''A1'', ''A2'']"
  by (simp add: allAnswered_def ex_fetchBalance)

lemma ex_store [simp]:
  "walletArrays exampleStore 6 = [5]" "walletArrays exampleStore 11 = [10]"
  "walletObjects exampleStore 5 = exampleWalletObject 4 (Num 9)"
  "walletObjects exampleStore 10 = exampleWalletObject 9 (Num 12)"
  "addressArrays exampleStore 4 = [2, 3]" "addressArrays exampleStore 9 = [7, 8]"
  "addressObjects exampleStore 2 = \<lparr>address = ''A1'', AddressWithBalance.coins = Num 5\<rparr>"
  "addressObjects exampleStore 3 = \<lparr>address = ''A2'', AddressWithBalance.coins = Num 4\<rparr>"
  "addressObjects exampleStore 7 = \<lparr>address = ''A1'', AddressWithBalance.coins = Num 5\<rparr>"
  "addressObjects exampleStore 8 = \<lparr>address = ''A2'', AddressWithBalance.coins = Num 7\<rparr>"
  by (simp_all add: exampleStore_def)

lemma ex_operator [simp]:
  "store exampleOperator = exampleStore"
  "walletsWithBalanceList exampleOperator = Some 6"
  "walletsWithBalanceSubject exampleOperator = [Some 6]"
  by (simp_all add: exampleOperator_def)

lemma ex_refs [simp]:
  "walletAddressRefs exampleStore 5 = [2, 3]" "walletAddressRefs exampleStore 10 = [7, 8]"
  "walletCoins exampleStore 5 = Num 9" "walletCoins exampleStore 10 = Num 12"
  "addressCoins exampleStore 2 = Num 5" "addressCoins exampleStore 3 = Num 4"
  "addressCoins exampleStore 7 = Num 5" "addressCoins exampleStore 8 = Num 7"
  by (simp_all add: walletAddressRefs_def walletCoins_def addressCoins_def
      exampleWalletObject_def)

lemma ex_onlyOne: "onlyOneAddressDiffers exampleStore [5] [10] 0 1"
  by (simp add: onlyOneAddressDiffers_def exampleWalletObject_def upt_rec_numeral)

lemma ex_separated: "separated exampleStore [5] [10]"
  by (simp add: separated_def)

section \<open>The reconciliation of the published list\<close>

lemma store_setWalletCoins [simp]:
  "walletArrays (setWalletCoins w c s) = walletArrays s"
  "addressArrays (setWalletCoins w c s) = addressArrays s"
  "addressObjects (setWalletCoins w c s) = addressObjects s"
  "balanceMaps (setWalletCoins w c s) = balanceMaps s"
  "nextRef (setWalletCoins w c s) = nextRef s"
  "walletObjects (setWalletCoins w c s) r =
     (if r = w then (walletObjects s w)\<lparr>WalletWithBalance.coins := c\<rparr> else walletObjects s r)"
  by (simp_all add: setWalletCoins_def)

lemma store_setWalletAddresses [simp]:
  "walletArrays (setWalletAddresses w a s) = walletArrays s"
  "addressArrays (setWalletAddresses w a s) = addressArrays s"
  "addressObjects (setWalletAddresses w a s) = addressObjects s"
  "balanceMaps (setWalletAddresses w a s) = balanceMaps s"
  "nextRef (setWalletAddresses w a s) = nextRef s"
  "walletObjects (setWalletAddresses w a s) r =
     (if r = w then (walletObjects s w)\<lparr>addresses := a\<rparr> else walletObjects s r)"
  by (simp_all add: setWalletAddresses_def)

lemma store_setAddressCoins [simp]:
  "walletArrays (setAddressCoins a c s) = walletArrays s"
  "addressArrays (setAddressCoins a c s) = addressArrays s"
  "walletObjects (setAddressCoins a c s) = walletObjects s"
  "balanceMaps (setAddressCoins a c s) = balanceMaps s"
  "nextRef (setAddressCoins a c s) = nextRef s"
  "addressObjects (setAddressCoins a c s) r =
     (if r = a then (addressObjects s a)\<lparr>AddressWithBalance.coins := c\<rparr> else addressObjects s r)"
  by (simp_all add: setAddressCoins_def)

lemma store_setBalance [simp]:
  "walletArrays (setBalance m k b s) = walletArrays s"
  "addressArrays (setBalance m k b s) = addressArrays s"
  "walletObjects (setBalance m k b s) = walletObjects s"
  "addressObjects (setBalance m k b s) = addressObjects s"
  "nextRef (setBalance m k b s) = nextRef s"
  "balanceMaps (setBalance m k b s) r =
     (if r = m then (balanceMaps s m)(k \<mapsto> b) else balanceMaps s r)"
  by (simp_all add: setBalance_def)

lemma updateWholeList_eq:
  "updateWholeList tw op =
     op\<lparr>walletsWithBalanceList := Some tw,
        walletsWithBalanceSubject := walletsWithBalanceSubject op @ [Some tw]\<rparr>"
  by (simp add: updateWholeList_def informDataUpdated_def)

lemma idChangeDetected_iff:
  "idChangeDetected s ws ts =
     (\<exists>i<length ws. id' (walletObjects s (ws ! i)) \<noteq> id' (walletObjects s (ts ! i)))"
  by (auto simp: idChangeDetected_def list_ex_iff)

lemma updateAddressCoins_same:
  "isEqualTo (addressCoins s c) (addressCoins s t) \<Longrightarrow>
   updateAddressCoins c t (s, ch) = (s, ch)"
  by (simp add: updateAddressCoins_def addressCoins_def)

lemma updateAddressCoins_differ:
  "\<not> isEqualTo (addressCoins s c) (addressCoins s t) \<Longrightarrow>
   updateAddressCoins c t (s, ch) = (setAddressCoins c (addressCoins s t) s, True)"
  by (simp add: updateAddressCoins_def addressCoins_def)

lemma updateAddresses_append:
  "updateAddresses (xs @ ys) k tas sc =
     updateAddresses ys (k + length xs) tas (updateAddresses xs k tas sc)"
  by (induction xs arbitrary: k sc) simp_all

lemma updateAddresses_same:
  "(\<And>j. j < length cas \<Longrightarrow> isEqualTo (addressCoins s (cas ! j)) (addressCoins s (tas ! (k + j))))
   \<Longrightarrow> updateAddresses cas k tas (s, ch) = (s, ch)"
proof (induction cas arbitrary: k)
  case Nil
  show ?case by simp
next
  case (Cons c cas)
  have "isEqualTo (addressCoins s c) (addressCoins s (tas ! k))"
    using Cons.prems [of 0] by simp
  moreover have "updateAddresses cas (Suc k) tas (s, ch) = (s, ch)"
  proof (rule Cons.IH)
    fix j assume "j < length cas"
    then show "isEqualTo (addressCoins s (cas ! j)) (addressCoins s (tas ! (Suc k + j)))"
      using Cons.prems [of "Suc j"] by simp
  qed
  ultimately show ?case by (simp add: updateAddressCoins_same)
qed

lemma updateBalances_append:
  "updateBalances (xs @ ys) k ts sc =
     updateBalances ys (k + length xs) ts (updateBalances xs k ts sc)"
  by (induction xs arbitrary: k sc) simp_all

lemma walletSame_iff:
  "walletSame s c t =
     (isEqualTo (walletCoins s c) (walletCoins s t)
      \<and> length (walletAddressRefs s c) = length (walletAddressRefs s t)
      \<and> (\<forall>j<length (walletAddressRefs s c).
            isEqualTo (addressCoins s (walletAddressRefs s c ! j))
              (addressCoins s (walletAddressRefs s t ! j))))"
  by (auto simp: walletSame_def list_all_iff)

lemma onlyOneAddressDiffers_iff:
  "onlyOneAddressDiffers s ws ts i0 j0 =
     (length ws = length ts \<and> i0 < length ws \<and> j0 < length (walletAddressRefs s (ws ! i0))
      \<and> (\<forall>i<length ws.
            id' (walletObjects s (ws ! i)) = id' (walletObjects s (ts ! i))
            \<and> length (walletAddressRefs s (ws ! i)) = length (walletAddressRefs s (ts ! i))
            \<and> (i = i0 \<or> isEqualTo (walletCoins s (ws ! i)) (walletCoins s (ts ! i)))
            \<and> (\<forall>j<length (walletAddressRefs s (ws ! i)).
                  isEqualTo (addressCoins s (walletAddressRefs s (ws ! i) ! j))
                    (addressCoins s (walletAddressRefs s (ts ! i) ! j))
                  = (i \<noteq> i0 \<or> j \<noteq> j0))))"
  by (auto simp: onlyOneAddressDiffers_def list_all_iff)

lemma updateWalletBalances_same:
  "walletSame s c t \<Longrightarrow> updateWalletBalances c t (s, ch) = (s, ch)"
  using updateAddresses_same [of "walletAddressRefs s c" s "walletAddressRefs s t" 0 ch]
  by (simp add: updateWalletBalances_def walletSame_iff walletCoins_def Let_def
      walletAddressRefs_def)

lemma updateBalances_same:
  "(\<And>i. i < length ws \<Longrightarrow> walletSame s (ws ! i) (ts ! (k + i)))
   \<Longrightarrow> updateBalances ws k ts (s, ch) = (s, ch)"
proof (induction ws arbitrary: k)
  case Nil
  show ?case by simp
next
  case (Cons c ws)
  have "walletSame s c (ts ! k)"
    using Cons.prems [of 0] by simp
  moreover have "updateBalances ws (Suc k) ts (s, ch) = (s, ch)"
  proof (rule Cons.IH)
    fix i assume "i < length ws"
    then show "walletSame s (ws ! i) (ts ! (Suc k + i))"
      using Cons.prems [of "Suc i"] by simp
  qed
  ultimately show ?case by (simp add: updateWalletBalances_same)
qed

text \<open>Agreement of two stores on two wallets and their addresses.\<close>

lemma walletSame_cong:
  assumes "walletObjects s' c = walletObjects s c" "walletObjects s' t = walletObjects s t"
    and "addressArrays s' = addressArrays s"
    and "\<And>a. a \<in> set (walletAddressRefs s c) \<union> set (walletAddressRefs s t) \<Longrightarrow>
           addressObjects s' a = addressObjects s a"
  shows "walletSame s' c t = walletSame s c t"
proof -
  have refs: "walletAddressRefs s' c = walletAddressRefs s c"
    "walletAddressRefs s' t = walletAddressRefs s t"
    using assms by (simp_all add: walletAddressRefs_def)
  have "\<And>j. j < length (walletAddressRefs s c) \<Longrightarrow>
      addressCoins s' (walletAddressRefs s c ! j) = addressCoins s (walletAddressRefs s c ! j)"
    using assms(4) by (simp add: addressCoins_def)
  moreover have "\<And>j. j < length (walletAddressRefs s t) \<Longrightarrow>
      addressCoins s' (walletAddressRefs s t ! j) = addressCoins s (walletAddressRefs s t ! j)"
    using assms(4) by (simp add: addressCoins_def)
  ultimately show ?thesis
    using assms(1,2) by (auto simp: walletSame_iff refs walletCoins_def)
qed


lemma distinct_concat_nth:
  "distinct (concat xss) \<Longrightarrow> i < length xss \<Longrightarrow> k < length xss \<Longrightarrow> i \<noteq> k \<Longrightarrow>
   set (xss ! i) \<inter> set (xss ! k) = {}"
proof (induction xss arbitrary: i k)
  case Nil
  then show ?case by simp
next
  case (Cons xs xss)
  show ?case
  proof (cases i)
    case 0
    with Cons.prems obtain k' where "k = Suc k'" "k' < length xss"
      by (cases k) auto
    with 0 Cons.prems(1) show ?thesis by fastforce
  next
    case (Suc i')
    show ?thesis
    proof (cases k)
      case 0
      with Suc Cons.prems show ?thesis by fastforce
    next
      case (Suc k')
      with \<open>i = Suc i'\<close> Cons show ?thesis by auto
    qed
  qed
qed

lemma distinct_concat_nth_distinct:
  "distinct (concat xss) \<Longrightarrow> i < length xss \<Longrightarrow> distinct (xss ! i)"
  by (induction xss arbitrary: i) (auto simp: nth_Cons split: nat.splits)

lemma updateAddresses_one:
  assumes j0: "j0 < length cas" and len: "length cas = length tas"
    and coins: "\<And>j. j < length cas \<Longrightarrow>
        isEqualTo (addressCoins s (cas ! j)) (addressCoins s (tas ! j)) = (j \<noteq> j0)"
    and dist: "distinct cas" and notin: "cas ! j0 \<notin> set tas"
  shows "updateAddresses cas 0 tas (s, ch) =
     (setAddressCoins (cas ! j0) (addressCoins s (tas ! j0)) s, True)"
proof -
  let ?a = "cas ! j0"
  let ?s' = "setAddressCoins ?a (addressCoins s (tas ! j0)) s"
  have split: "cas = take j0 cas @ ?a # drop (Suc j0) cas"
    using j0 by (rule id_take_nth_drop)
  have pre: "updateAddresses (take j0 cas) 0 tas (s, ch) = (s, ch)"
    by (rule updateAddresses_same) (use j0 coins in auto)
  have step: "updateAddressCoins ?a (tas ! j0) (s, ch) = (?s', True)"
    using coins [OF j0] by (simp add: updateAddressCoins_differ)
  have other: "\<And>r. r \<noteq> ?a \<Longrightarrow> addressCoins ?s' r = addressCoins s r"
    by (simp add: addressCoins_def)
  have post: "updateAddresses (drop (Suc j0) cas) (Suc j0) tas (?s', True) = (?s', True)"
  proof (rule updateAddresses_same)
    fix j assume j: "j < length (drop (Suc j0) cas)"
    then have lt: "Suc j0 + j < length cas" by simp
    have c: "drop (Suc j0) cas ! j = cas ! (Suc j0 + j)"
      using lt by simp
    have "cas ! (Suc j0 + j) \<noteq> ?a"
      using dist lt j0 by (simp add: nth_eq_iff_index_eq)
    moreover have "tas ! (Suc j0 + j) \<noteq> ?a"
      using notin lt len by (metis nth_mem)
    ultimately show "isEqualTo (addressCoins ?s' (drop (Suc j0) cas ! j))
        (addressCoins ?s' (tas ! (Suc j0 + j)))"
      using coins [OF lt] by (simp add: c other)
  qed
  have "updateAddresses cas 0 tas (s, ch) =
      updateAddresses (?a # drop (Suc j0) cas) j0 tas (s, ch)"
    using j0 by (subst split, subst updateAddresses_append) (simp add: pre)
  then show ?thesis
    by (simp add: step post)
qed



lemma updateWalletBalances_unfold_same:
  "isEqualTo (walletCoins s c) (walletCoins s t) \<Longrightarrow>
   length (walletAddressRefs s c) = length (walletAddressRefs s t) \<Longrightarrow>
   updateWalletBalances c t (s, ch) =
     updateAddresses (walletAddressRefs s c) 0 (walletAddressRefs s t) (s, ch)"
  by (simp add: updateWalletBalances_def Let_def walletCoins_def walletAddressRefs_def)

lemma walletAddressRefs_setWalletCoins [simp]:
  "walletAddressRefs (setWalletCoins w x s) r = walletAddressRefs s r"
  by (simp add: walletAddressRefs_def)

lemma addressCoins_setWalletCoins [simp]:
  "addressCoins (setWalletCoins w x s) = addressCoins s"
  by (simp add: addressCoins_def fun_eq_iff)

lemma updateWalletBalances_unfold_differ:
  assumes "\<not> isEqualTo (walletCoins s c) (walletCoins s t)"
    and "length (walletAddressRefs s c) = length (walletAddressRefs s t)"
  shows "updateWalletBalances c t (s, ch) =
     updateAddresses (walletAddressRefs s c) 0 (walletAddressRefs s t)
       (setWalletCoins c (walletCoins s t) s, True)"
proof -
  let ?s1 = "setWalletCoins c (walletCoins s t) s"
  have "addressArrays ?s1 (addresses (walletObjects ?s1 c)) = walletAddressRefs s c"
    "addressArrays ?s1 (addresses (walletObjects ?s1 t)) = walletAddressRefs s t"
    using walletAddressRefs_setWalletCoins [of c "walletCoins s t" s]
    by (simp_all only: walletAddressRefs_def)
  then show ?thesis
    using assms
    by (simp add: updateWalletBalances_def Let_def walletCoins_def
        del: store_setWalletCoins)
qed

lemma updateWalletBalances_one:
  assumes len: "length (walletAddressRefs s c) = length (walletAddressRefs s t)"
    and j0: "j0 < length (walletAddressRefs s c)"
    and coins: "\<And>j. j < length (walletAddressRefs s c) \<Longrightarrow>
        isEqualTo (addressCoins s (walletAddressRefs s c ! j))
          (addressCoins s (walletAddressRefs s t ! j)) = (j \<noteq> j0)"
    and dist: "distinct (walletAddressRefs s c)"
    and notin: "walletAddressRefs s c ! j0 \<notin> set (walletAddressRefs s t)"
  shows "updateWalletBalances c t (s, ch) =
     (setAddressCoins (walletAddressRefs s c ! j0) (addressCoins s (walletAddressRefs s t ! j0))
        (if isEqualTo (walletCoins s c) (walletCoins s t) then s
         else setWalletCoins c (walletCoins s t) s), True)"
proof (cases "isEqualTo (walletCoins s c) (walletCoins s t)")
  case True
  show ?thesis
    using updateAddresses_one [OF j0 len coins dist notin] True
    by (simp add: updateWalletBalances_unfold_same [OF True len])
next
  case False
  let ?s1 = "setWalletCoins c (walletCoins s t) s"
  have "updateAddresses (walletAddressRefs s c) 0 (walletAddressRefs s t) (?s1, True) =
      (setAddressCoins (walletAddressRefs s c ! j0)
         (addressCoins ?s1 (walletAddressRefs s t ! j0)) ?s1, True)"
    by (rule updateAddresses_one [OF j0 len _ dist notin]) (simp add: coins)
  then show ?thesis
    using False by (simp add: updateWalletBalances_unfold_differ [OF False len])
qed


section \<open>The passes\<close>

subsection \<open>New objects\<close>

lemma addressesWithBalanceFromBase_effect:
  "addressesWithBalanceFromBase as s = (rs, s') \<Longrightarrow>
   nextRef s' = nextRef s + length as
   \<and> (\<forall>r\<in>set rs. nextRef s \<le> r \<and> r < nextRef s') \<and> distinct rs
   \<and> walletArrays s' = walletArrays s \<and> walletObjects s' = walletObjects s
   \<and> addressArrays s' = addressArrays s \<and> balanceMaps s' = balanceMaps s
   \<and> (\<forall>r<nextRef s. addressObjects s' r = addressObjects s r)
   \<and> map (addressObjects s') rs =
       map (\<lambda>a. \<lparr>address = address a, AddressWithBalance.coins = Num 0\<rparr>) as"
proof (induction as arbitrary: s rs s')
  case Nil
  then show ?case by simp
next
  case (Cons a as)
  let ?new = "\<lparr>address = address a, AddressWithBalance.coins = Num 0\<rparr>"
  let ?s1 = "s\<lparr>addressObjects := (addressObjects s)(nextRef s := ?new),
               nextRef := Suc (nextRef s)\<rparr>"
  obtain rs' where rec: "addressesWithBalanceFromBase as ?s1 = (rs', s')"
    and rs: "rs = nextRef s # rs'"
    using Cons.prems by (auto simp: newAddressObject_def split: prod.splits)
  from Cons.IH [OF rec]
  have n: "nextRef s' = Suc (nextRef s) + length as"
    and bounds: "\<forall>r\<in>set rs'. Suc (nextRef s) \<le> r \<and> r < nextRef s'"
    and dist: "distinct rs'"
    and same: "walletArrays s' = walletArrays s" "walletObjects s' = walletObjects s"
      "addressArrays s' = addressArrays s" "balanceMaps s' = balanceMaps s"
    and old: "\<forall>r<Suc (nextRef s). addressObjects s' r =
        ((addressObjects s)(nextRef s := ?new)) r"
    and new: "map (addressObjects s') rs' =
       map (\<lambda>a. \<lparr>address = address a, AddressWithBalance.coins = Num 0\<rparr>) as"
    by auto
  have first: "addressObjects s' (nextRef s) = ?new"
    using old by simp
  have notin: "nextRef s \<notin> set rs'"
    using bounds by auto
  have older: "\<forall>r<nextRef s. addressObjects s' r = addressObjects s r"
    using old by simp
  show ?case
    using n bounds dist same older new first notin rs by auto
qed

lemma walletWithBalanceFromBase_effect:
  assumes "walletWithBalanceFromBase wallet s = (w, s')"
  shows "nextRef s \<le> w \<and> w < nextRef s' \<and> nextRef s < nextRef s'
   \<and> walletArrays s' = walletArrays s \<and> balanceMaps s' = balanceMaps s
   \<and> (\<forall>r<nextRef s. walletObjects s' r = walletObjects s r
         \<and> addressArrays s' r = addressArrays s r \<and> addressObjects s' r = addressObjects s r)
   \<and> (\<forall>r\<in>set (walletAddressRefs s' w). nextRef s \<le> r \<and> r < nextRef s')
   \<and> distinct (walletAddressRefs s' w)
   \<and> addresses (walletObjects s' w) < nextRef s'
   \<and> walletView s' w = withBalance newWalletBalance wallet"
proof -
  obtain rs s1 where a: "addressesWithBalanceFromBase (addresses wallet) s = (rs, s1)"
    by (cases "addressesWithBalanceFromBase (addresses wallet) s")
  note A = addressesWithBalanceFromBase_effect [OF a]
  let ?s2 = "s1\<lparr>addressArrays := (addressArrays s1)(nextRef s1 := rs),
               nextRef := Suc (nextRef s1)\<rparr>"
  let ?obj = "\<lparr>id' = id' wallet, label = label wallet, encrypted = encrypted wallet,
      isHardware = isHardware wallet, addresses = nextRef s1,
      WalletWithBalance.coins = Num 0\<rparr>"
  have w: "w = Suc (nextRef s1)"
    and s': "s' = ?s2\<lparr>walletObjects := (walletObjects ?s2)(Suc (nextRef s1) := ?obj),
                      nextRef := Suc (Suc (nextRef s1))\<rparr>"
    using assms a
    by (auto simp: walletWithBalanceFromBase_def newAddressArray_def newWalletObject_def)
  have refs: "walletAddressRefs s' w = rs"
    by (simp add: walletAddressRefs_def w s')
  have objs: "map (addressObjects s') rs =
      map (\<lambda>a. \<lparr>address = address a, AddressWithBalance.coins = Num 0\<rparr>) (addresses wallet)"
    using A by (simp add: s')
  have view: "walletView s' w = withBalance newWalletBalance wallet"
    using objs
    by (simp add: walletView_def withBalance_def refs walletCoins_def coinsOf_def
        newWalletBalance_def) (simp add: w s')
  show ?thesis
    using A view refs by (auto simp: w s')
qed


lemma walletView_agree:
  assumes "walletObjects s' w = walletObjects s w"
    and "addressArrays s' (addresses (walletObjects s w)) =
         addressArrays s (addresses (walletObjects s w))"
    and "\<forall>a\<in>set (walletAddressRefs s w). addressObjects s' a = addressObjects s a"
  shows "walletAddressRefs s' w = walletAddressRefs s w" and "walletView s' w = walletView s w"
proof -
  show refs: "walletAddressRefs s' w = walletAddressRefs s w"
    using assms(1,2) by (simp add: walletAddressRefs_def)
  show "walletView s' w = walletView s w"
    using assms(1,3) by (simp add: walletView_def refs walletCoins_def)
qed

lemma walletsWithBalanceFromBase_effect:
  "walletsWithBalanceFromBase wallets s = (rs, s') \<Longrightarrow>
   nextRef s \<le> nextRef s'
   \<and> walletArrays s' = walletArrays s \<and> balanceMaps s' = balanceMaps s
   \<and> (\<forall>r<nextRef s. walletObjects s' r = walletObjects s r
         \<and> addressArrays s' r = addressArrays s r \<and> addressObjects s' r = addressObjects s r)
   \<and> (\<forall>w\<in>set rs. nextRef s \<le> w \<and> w < nextRef s') \<and> distinct rs
   \<and> (\<forall>a\<in>set (concat (map (walletAddressRefs s') rs)). nextRef s \<le> a \<and> a < nextRef s')
   \<and> distinct (concat (map (walletAddressRefs s') rs))
   \<and> map (walletView s') rs = map (withBalance newWalletBalance) wallets"
proof (induction wallets arbitrary: s rs s')
  case Nil
  then show ?case by simp
next
  case (Cons wallet wallets)
  obtain w s1 where first: "walletWithBalanceFromBase wallet s = (w, s1)"
    by (cases "walletWithBalanceFromBase wallet s")
  obtain rs' where rec: "walletsWithBalanceFromBase wallets s1 = (rs', s')"
    and rs: "rs = w # rs'"
    using Cons.prems first by (auto split: prod.splits)
  note F = walletWithBalanceFromBase_effect [OF first]
  note R = Cons.IH [OF rec]
  have keep: "walletObjects s' w = walletObjects s1 w"
    "addressArrays s' (addresses (walletObjects s1 w)) =
       addressArrays s1 (addresses (walletObjects s1 w))"
    "\<forall>a\<in>set (walletAddressRefs s1 w). addressObjects s' a = addressObjects s1 a"
    using F R by auto
  note V = walletView_agree [OF keep]
  have w_notin: "w \<notin> set rs'"
    using F R by auto
  have disjoint: "set (walletAddressRefs s1 w) \<inter> set (concat (map (walletAddressRefs s') rs')) = {}"
    using F R by fastforce
  have old: "\<forall>r<nextRef s. walletObjects s' r = walletObjects s r
         \<and> addressArrays s' r = addressArrays s r \<and> addressObjects s' r = addressObjects s r"
    using F R by auto
  have bounds: "\<forall>w\<in>set rs. nextRef s \<le> w \<and> w < nextRef s'"
    using F R rs by fastforce
  have abounds: "\<forall>a\<in>set (concat (map (walletAddressRefs s') rs)).
      nextRef s \<le> a \<and> a < nextRef s'"
    using F R rs V(1) by fastforce
  show ?case
    using F R V w_notin disjoint old bounds abounds by (simp add: rs)
qed


subsection \<open>The last step of retrieveWalletBalance\<close>

lemma fold_setCoinsFromBalance:
  "fold (setCoinsFromBalance b) refs s =
     s\<lparr>addressObjects :=
         (\<lambda>a. if a \<in> set refs
              then (addressObjects s a)
                     \<lparr>AddressWithBalance.coins := coinsOf b (address (addressObjects s a))\<rparr>
              else addressObjects s a)\<rparr>"
proof (induction refs arbitrary: s)
  case Nil
  show ?case by simp
next
  case (Cons x refs)
  have step: "setCoinsFromBalance b x s =
      setAddressCoins x (coinsOf b (address (addressObjects s x))) s"
    by (simp add: setCoinsFromBalance_def coinsOf_def split: option.splits)
  show ?case
    by (simp add: Cons.IH step) (auto simp: setAddressCoins_def fun_eq_iff)
qed

lemma walletStep_store:
  "walletArrays (walletStep b w t s) = walletArrays s"
  "addressArrays (walletStep b w t s) = addressArrays s"
  "nextRef (walletStep b w t s) = nextRef s"
  "walletObjects (walletStep b w t s) =
     (walletObjects s)(w := (walletObjects s w)\<lparr>WalletWithBalance.coins := predicted b\<rparr>)"
  "addressObjects (walletStep b w t s) =
     (\<lambda>a. if a \<in> set (walletAddressRefs s w)
          then (addressObjects s a)
                 \<lparr>AddressWithBalance.coins := coinsOf b (address (addressObjects s a))\<rparr>
          else addressObjects s a)"
  "balanceMaps (walletStep b w t s) =
     (balanceMaps s)(t := (balanceMaps s t)(id' (walletObjects s w) \<mapsto> b))"
  by (auto simp: walletStep_def fold_setCoinsFromBalance setWalletCoins_def setBalance_def
      fun_eq_iff walletAddressRefs_def)

lemma addValuesToWallet_eq:
  "addValuesToWallet w u b op =
     (if \<not> u then \<not> isEqualTo (current b) (predicted b)
      else last (hasPendingTransactionsSubject op),
      op\<lparr>store := walletStep b w (temporalSavedBalanceData op) (store op)\<rparr>)"
  by (simp add: addValuesToWallet_def walletStep_def Let_def walletAddressRefs_def
      setWalletCoins_def setBalance_def)

lemma coinsOnly_refl [simp]: "coinsOnly s s"
  by (simp add: coinsOnly_def walletCoins_def addressCoins_def)

lemma coinsOnly_trans:
  assumes "coinsOnly s s'" and "coinsOnly s' s''"
  shows "coinsOnly s s''"
proof -
  have w: "\<And>r. walletObjects s'' r =
      (walletObjects s r)\<lparr>WalletWithBalance.coins := walletCoins s'' r\<rparr>"
  proof -
    fix r
    have "walletObjects s'' r =
        (walletObjects s' r)\<lparr>WalletWithBalance.coins := walletCoins s'' r\<rparr>"
      using assms(2) by (simp add: coinsOnly_def)
    also have "walletObjects s' r =
        (walletObjects s r)\<lparr>WalletWithBalance.coins := walletCoins s' r\<rparr>"
      using assms(1) by (simp add: coinsOnly_def)
    finally show "walletObjects s'' r =
        (walletObjects s r)\<lparr>WalletWithBalance.coins := walletCoins s'' r\<rparr>"
      by simp
  qed
  have a: "\<And>r. addressObjects s'' r =
      (addressObjects s r)\<lparr>AddressWithBalance.coins := addressCoins s'' r\<rparr>"
  proof -
    fix r
    have "addressObjects s'' r =
        (addressObjects s' r)\<lparr>AddressWithBalance.coins := addressCoins s'' r\<rparr>"
      using assms(2) by (simp add: coinsOnly_def)
    also have "addressObjects s' r =
        (addressObjects s r)\<lparr>AddressWithBalance.coins := addressCoins s' r\<rparr>"
      using assms(1) by (simp add: coinsOnly_def)
    finally show "addressObjects s'' r =
        (addressObjects s r)\<lparr>AddressWithBalance.coins := addressCoins s'' r\<rparr>"
      by simp
  qed
  show ?thesis
    using assms w a by (simp add: coinsOnly_def)
qed

lemma coinsOnly_walletStep: "coinsOnly s (walletStep b w t s)"
  by (simp add: coinsOnly_def walletStep_store walletCoins_def addressCoins_def)

lemma coinsOnly_reads:
  assumes "coinsOnly s s'"
  shows "walletAddressRefs s' w = walletAddressRefs s w"
    and "walletAddresses s' w = walletAddresses s w"
    and "id' (walletObjects s' w) = id' (walletObjects s w)"
proof -
  have w: "\<And>r. walletObjects s' r =
      (walletObjects s r)\<lparr>WalletWithBalance.coins := walletCoins s' r\<rparr>"
    and a: "\<And>r. addressObjects s' r =
      (addressObjects s r)\<lparr>AddressWithBalance.coins := addressCoins s' r\<rparr>"
    and arr: "addressArrays s' = addressArrays s"
    using assms by (simp_all add: coinsOnly_def)
  have addr: "addresses (walletObjects s' w) = addresses (walletObjects s w)"
    by (subst w) simp
  show "walletAddressRefs s' w = walletAddressRefs s w"
    by (simp add: walletAddressRefs_def addr arr)
  have "\<And>r. address (addressObjects s' r) = address (addressObjects s r)"
    by (subst a) simp
  then show "walletAddresses s' w = walletAddresses s w"
    by (simp add: walletAddresses_def addr arr)
  show "id' (walletObjects s' w) = id' (walletObjects s w)"
    by (subst w) simp
qed

lemma walletView_walletStep:
  "walletView (walletStep b w t s) w = applyBalance b (walletView s w)"
  by (simp add: walletView_def applyBalance_def walletStep_store walletAddressRefs_def
      walletCoins_def)

lemma walletView_walletStep_other:
  "w' \<noteq> w \<Longrightarrow> set (walletAddressRefs s w') \<inter> set (walletAddressRefs s w) = {} \<Longrightarrow>
   walletView (walletStep b w t s) w' = walletView s w'"
  by (auto simp: walletView_def walletStep_store walletAddressRefs_def walletCoins_def)

lemma applyBalance_withBalance: "applyBalance b (withBalance b0 wallet) = withBalance b wallet"
  by (simp add: applyBalance_def withBalance_def comp_def)


subsection \<open>forkJoin of the balances\<close>

lemma retrieveWalletBalance_network:
  "retrieveWalletBalance node w False op0 =
     balanceObservable
       (\<lambda>op w. snd (nodeQuery (currentCoin op) node (walletAddresses (store op) w)))
       (\<lambda>b op. \<not> isEqualTo (current b) (predicted b)) w"
  by (auto simp: retrieveWalletBalance_def balanceObservable_def addValuesToWallet_eq fun_eq_iff
      split: sum.splits)

lemma retrieveWalletBalance_quick:
  "retrieveWalletBalance node w True op0 =
     balanceObservable (\<lambda>op w. Inr (savedQuery w op0))
       (\<lambda>b op. last (hasPendingTransactionsSubject op)) w"
  by (simp add: retrieveWalletBalance_def balanceObservable_def addValuesToWallet_eq Let_def)

lemma stableQuery_network:
  "stableQuery (\<lambda>op w. snd (nodeQuery (currentCoin op) node (walletAddresses (store op) w)))
     (\<lambda>b op. \<not> isEqualTo (current b) (predicted b))"
  by (simp add: stableQuery_def coinsOnly_reads)

lemma stableQuery_quick:
  "stableQuery (\<lambda>op w. Inr (savedQuery w op0)) (\<lambda>b op. last (hasPendingTransactionsSubject op))"
  by (simp add: stableQuery_def)

lemma balanceObservable_cases:
  obtains (failed) e where "q op w = Inl e" "balanceObservable q f w op = (Inl e, op)"
  | (answered) b where "q op w = Inr b"
      "balanceObservable q f w op =
         (Inr (f b op),
          op\<lparr>store := walletStep b w (temporalSavedBalanceData op) (store op)\<rparr>)"
  by (cases "q op w") (simp_all add: balanceObservable_def)

lemma forkJoin_frame:
  "forkJoin (map (balanceObservable q f) rs) op = (res, op') \<Longrightarrow>
   op' = op\<lparr>store := store op'\<rparr> \<and> coinsOnly (store op) (store op')
   \<and> (\<forall>r. r \<notin> set rs \<longrightarrow> walletObjects (store op') r = walletObjects (store op) r)
   \<and> (\<forall>r. r \<notin> set (concat (map (walletAddressRefs (store op)) rs)) \<longrightarrow>
          addressObjects (store op') r = addressObjects (store op) r)
   \<and> (\<forall>r. r \<noteq> temporalSavedBalanceData op \<longrightarrow>
          balanceMaps (store op') r = balanceMaps (store op) r)"
proof (induction rs arbitrary: op res op')
  case Nil
  then show ?case by auto
next
  case (Cons w rs)
  show ?case
  proof (cases rule: balanceObservable_cases [of q op w f])
    case (failed e)
    with Cons.prems show ?thesis by auto
  next
    case (answered b)
    let ?op1 = "op\<lparr>store := walletStep b w (temporalSavedBalanceData op) (store op)\<rparr>"
    obtain res1 where rest: "forkJoin (map (balanceObservable q f) rs) ?op1 = (res1, op')"
      using Cons.prems answered by (auto split: prod.splits sum.splits)
    note IH = Cons.IH [OF rest]
    have c1: "coinsOnly (store op) (walletStep b w (temporalSavedBalanceData op) (store op))"
      by (simp add: coinsOnly_walletStep)
    have refs: "\<And>r. walletAddressRefs
        (walletStep b w (temporalSavedBalanceData op) (store op)) r =
        walletAddressRefs (store op) r"
      using coinsOnly_reads(1) [OF c1] .
    have "op' = op\<lparr>store := store op'\<rparr>"
      using IH by (metis (no_types, lifting) EthBalanceAndOutputsOperator.surjective
          EthBalanceAndOutputsOperator.update_convs(1))
    moreover have "coinsOnly (store op) (store op')"
      using c1 IH by (auto intro: coinsOnly_trans)
    moreover have "\<forall>r. r \<notin> set (w # rs) \<longrightarrow>
        walletObjects (store op') r = walletObjects (store op) r"
      using IH by (simp add: walletStep_store)
    moreover have "\<forall>r. r \<notin> set (concat (map (walletAddressRefs (store op)) (w # rs))) \<longrightarrow>
        addressObjects (store op') r = addressObjects (store op) r"
      using IH by (simp add: refs walletStep_store)
    moreover have "\<forall>r. r \<noteq> temporalSavedBalanceData op \<longrightarrow>
        balanceMaps (store op') r = balanceMaps (store op) r"
      using IH by (simp add: walletStep_store)
    ultimately show ?thesis by blast
  qed
qed


lemma stableQueryD:
  assumes "stableQuery q f" and "coinsOnly (store op) s"
  shows "q (op\<lparr>store := s\<rparr>) w = q op w" and "f b (op\<lparr>store := s\<rparr>) = f b op"
  using assms by (simp_all add: stableQuery_def)

lemma forkJoin_result:
  assumes "stableQuery q f"
  shows "fst (forkJoin (map (balanceObservable q f) rs) op) =
     (if list_all (\<lambda>w. \<not> isl (q op w)) rs
      then Inr (map (\<lambda>w. f (projr (q op w)) op) rs)
      else Inl RpcError)"
proof (induction rs arbitrary: op)
  case Nil
  show ?case by simp
next
  case (Cons w rs)
  show ?case
  proof (cases rule: balanceObservable_cases [of q op w f])
    case (failed e)
    then show ?thesis by simp
  next
    case (answered b)
    let ?s1 = "walletStep b w (temporalSavedBalanceData op) (store op)"
    have c1: "coinsOnly (store op) ?s1"
      by (simp add: coinsOnly_walletStep)
    have q1: "\<And>w'. q (op\<lparr>store := ?s1\<rparr>) w' = q op w'"
      and f1: "\<And>b'. f b' (op\<lparr>store := ?s1\<rparr>) = f b' op"
      using stableQueryD [OF assms c1] by simp_all
    show ?thesis
      using answered Cons.IH [of "op\<lparr>store := ?s1\<rparr>"]
      by (simp add: q1 f1 case_prod_beta split: sum.splits)
  qed
qed

lemma forkJoin_views:
  assumes stable: "stableQuery q f"
  shows "forkJoin (map (balanceObservable q f) rs) op = (Inr flags, op') \<Longrightarrow>
     distinct rs \<Longrightarrow> distinct (concat (map (walletAddressRefs (store op)) rs)) \<Longrightarrow>
     map (walletView (store op')) rs =
       map (\<lambda>w. applyBalance (projr (q op w)) (walletView (store op) w)) rs"
proof (induction rs arbitrary: op flags op')
  case Nil
  show ?case by simp
next
  case (Cons w rs)
  show ?case
  proof (cases rule: balanceObservable_cases [of q op w f])
    case (failed e)
    with Cons.prems show ?thesis by simp
  next
    case (answered b)
    let ?s1 = "walletStep b w (temporalSavedBalanceData op) (store op)"
    let ?op1 = "op\<lparr>store := ?s1\<rparr>"
    obtain flags' where rest: "forkJoin (map (balanceObservable q f) rs) ?op1 = (Inr flags', op')"
      using Cons.prems(1) answered by (auto split: prod.splits sum.splits)
    have c1: "coinsOnly (store op) ?s1"
      by (simp add: coinsOnly_walletStep)
    have refs: "walletAddressRefs ?s1 = walletAddressRefs (store op)"
      using coinsOnly_reads(1) [OF c1] by (simp add: fun_eq_iff)
    have q1: "\<And>w'. q ?op1 w' = q op w'"
      using stableQueryD [OF stable c1] by simp
    have d: "distinct rs" "distinct (concat (map (walletAddressRefs (store ?op1)) rs))"
      using Cons.prems(2,3) by (simp_all add: refs)
    note IH = Cons.IH [OF rest d]
    note F = forkJoin_frame [OF rest]
    \<comment> \<open>the later wallets leave the first one as it is\<close>
    have w_notin: "w \<notin> set rs"
      using Cons.prems(2) by simp
    have disjoint: "set (walletAddressRefs (store op) w) \<inter>
        set (concat (map (walletAddressRefs (store op)) rs)) = {}"
      using Cons.prems(3) by simp
    have "walletView (store op') w = walletView ?s1 w"
    proof (rule walletView_agree(2))
      show "walletObjects (store op') w = walletObjects ?s1 w"
        using F w_notin by simp
      show "addressArrays (store op') (addresses (walletObjects ?s1 w)) =
          addressArrays ?s1 (addresses (walletObjects ?s1 w))"
        using F by (simp add: coinsOnly_def)
      have Fa: "\<And>r. r \<notin> set (concat (map (walletAddressRefs (store op)) rs)) \<Longrightarrow>
          addressObjects (store op') r = addressObjects ?s1 r"
        using F by (simp add: refs)
      show "\<forall>a\<in>set (walletAddressRefs ?s1 w). addressObjects (store op') a = addressObjects ?s1 a"
      proof
        fix a assume "a \<in> set (walletAddressRefs ?s1 w)"
        then have "a \<in> set (walletAddressRefs (store op) w)"
          by (simp add: refs)
        with disjoint have "a \<notin> set (concat (map (walletAddressRefs (store op)) rs))"
          by blast
        then show "addressObjects (store op') a = addressObjects ?s1 a"
          by (rule Fa)
      qed
    qed
    then have first: "walletView (store op') w = applyBalance b (walletView (store op) w)"
      by (simp add: walletView_walletStep)
    \<comment> \<open>the first wallet leaves the later ones as they are\<close>
    have others: "\<And>w'. w' \<in> set rs \<Longrightarrow> walletView ?s1 w' = walletView (store op) w'"
    proof (rule walletView_walletStep_other)
      fix w' assume w': "w' \<in> set rs"
      then show "w' \<noteq> w" using w_notin by auto
      show "set (walletAddressRefs (store op) w') \<inter> set (walletAddressRefs (store op) w) = {}"
        using disjoint w' by auto
    qed
    show ?thesis
      using IH first others answered by (simp add: q1)
  qed
qed

lemma forkJoin_map:
  assumes stable: "stableQuery q f"
  shows "forkJoin (map (balanceObservable q f) rs) op = (Inr flags, op') \<Longrightarrow>
     distinct (map (\<lambda>w. id' (walletObjects (store op) w)) rs) \<Longrightarrow>
     (\<forall>w\<in>set rs. balanceMaps (store op') (temporalSavedBalanceData op)
                    (id' (walletObjects (store op) w)) = Some (projr (q op w)))
     \<and> (\<forall>k. k \<notin> (\<lambda>w. id' (walletObjects (store op) w)) ` set rs \<longrightarrow>
            balanceMaps (store op') (temporalSavedBalanceData op) k =
            balanceMaps (store op) (temporalSavedBalanceData op) k)"
proof (induction rs arbitrary: op flags op')
  case Nil
  then show ?case by simp
next
  case (Cons w rs)
  show ?case
  proof (cases rule: balanceObservable_cases [of q op w f])
    case (failed e)
    with Cons.prems show ?thesis by simp
  next
    case (answered b)
    let ?t = "temporalSavedBalanceData op"
    let ?s1 = "walletStep b w ?t (store op)"
    let ?op1 = "op\<lparr>store := ?s1\<rparr>"
    obtain flags' where rest: "forkJoin (map (balanceObservable q f) rs) ?op1 = (Inr flags', op')"
      using Cons.prems(1) answered by (auto split: prod.splits sum.splits)
    have c1: "coinsOnly (store op) ?s1"
      by (simp add: coinsOnly_walletStep)
    have ids: "(\<lambda>r. id' (walletObjects ?s1 r)) = (\<lambda>r. id' (walletObjects (store op) r))"
      using coinsOnly_reads(3) [OF c1] by (simp add: fun_eq_iff)
    have id1: "\<And>r. id' (walletObjects ?s1 r) = id' (walletObjects (store op) r)"
      using coinsOnly_reads(3) [OF c1] .
    have bm: "balanceMaps ?s1 =
        (balanceMaps (store op))(?t := (balanceMaps (store op) ?t)
           (id' (walletObjects (store op) w) \<mapsto> b))"
      by (rule walletStep_store)
    have q1: "\<And>w'. q ?op1 w' = q op w'"
      using stableQueryD [OF stable c1] by simp
    have d: "distinct (map (\<lambda>w. id' (walletObjects (store ?op1) w)) rs)"
      using Cons.prems(2) by (simp add: ids id1)
    note IH = Cons.IH [OF rest d]
    have fresh: "id' (walletObjects (store op) w) \<notin>
        (\<lambda>w. id' (walletObjects (store op) w)) ` set rs"
      using Cons.prems(2) by auto
    have first: "balanceMaps (store op') ?t (id' (walletObjects (store op) w)) = Some b"
      using IH fresh by (simp add: ids id1 bm)
    have rest_ok: "\<forall>w'\<in>set rs. balanceMaps (store op') ?t (id' (walletObjects (store op) w')) =
        Some (projr (q op w'))"
      using IH by (simp add: ids id1 q1)
    have other: "\<forall>k. k \<notin> (\<lambda>w. id' (walletObjects (store op) w)) ` set (w # rs) \<longrightarrow>
        balanceMaps (store op') ?t k = balanceMaps (store op) ?t k"
      using IH by (auto simp: ids id1 bm)
    show ?thesis
      using first rest_ok other answered by simp
  qed
qed


subsection \<open>The beginning of a pass\<close>

lemma refreshBalancesBegin_effect:
  assumes "refreshBalancesBegin wallets force op = (tw, op1)"
  shows "distinct (walletArrays (store op1) tw)
   \<and> distinct (concat (map (walletAddressRefs (store op1)) (walletArrays (store op1) tw)))
   \<and> listView (store op1) tw = map (withBalance newWalletBalance) wallets
   \<and> (\<forall>w\<in>set (walletArrays (store op1) tw). nextRef (store op) \<le> w \<and> w < nextRef (store op1))
   \<and> (\<forall>a\<in>set (concat (map (walletAddressRefs (store op1)) (walletArrays (store op1) tw))).
          nextRef (store op) \<le> a \<and> a < nextRef (store op1))
   \<and> nextRef (store op) \<le> tw \<and> tw < nextRef (store op1)
   \<and> agreeBelow (nextRef (store op)) (store op) (store op1)
   \<and> (force \<longrightarrow> op1 = op\<lparr>store := store op1\<rparr> \<and> balanceMaps (store op1) = balanceMaps (store op))
   \<and> (\<not> force \<longrightarrow>
         op1 = op\<lparr>store := store op1, temporalSavedBalanceData := temporalSavedBalanceData op1\<rparr>
         \<and> nextRef (store op) \<le> temporalSavedBalanceData op1
         \<and> temporalSavedBalanceData op1 < nextRef (store op1)
         \<and> balanceMaps (store op1) (temporalSavedBalanceData op1) = Map.empty)"
proof -
  obtain rs s1 where a: "walletsWithBalanceFromBase wallets (store op) = (rs, s1)"
    by (cases "walletsWithBalanceFromBase wallets (store op)")
  note A = walletsWithBalanceFromBase_effect [OF a]
  let ?s2 = "s1\<lparr>walletArrays := (walletArrays s1)(nextRef s1 := rs), nextRef := Suc (nextRef s1)\<rparr>"
  let ?s3 = "?s2\<lparr>balanceMaps := (balanceMaps ?s2)(Suc (nextRef s1) := Map.empty),
                  nextRef := Suc (Suc (nextRef s1))\<rparr>"
  have tw: "tw = nextRef s1"
    and op1: "op1 = (if \<not> force then op\<lparr>store := ?s3, temporalSavedBalanceData := Suc (nextRef s1)\<rparr>
                     else op\<lparr>store := ?s2\<rparr>)"
    using assms a
    by (auto simp: refreshBalancesBegin_def newWalletArray_def newBalanceMap_def
        split: if_splits)
  have objs: "walletObjects (store op1) = walletObjects s1"
    "addressArrays (store op1) = addressArrays s1"
    "addressObjects (store op1) = addressObjects s1"
    "walletArrays (store op1) = (walletArrays s1)(nextRef s1 := rs)"
    by (simp_all add: op1)
  have refs: "walletAddressRefs (store op1) = walletAddressRefs s1"
    by (simp add: walletAddressRefs_def fun_eq_iff objs)
  have view: "walletView (store op1) = walletView s1"
    by (simp add: walletView_def fun_eq_iff objs refs walletCoins_def)
  have arr: "walletArrays (store op1) tw = rs"
    by (simp add: objs tw)
  have n: "nextRef (store op1) = (if \<not> force then Suc (Suc (nextRef s1)) else Suc (nextRef s1))"
    by (simp add: op1)
  have agree: "agreeBelow (nextRef (store op)) (store op) (store op1)"
    using A by (auto simp: agreeBelow_def op1)
  have bounds: "\<forall>w\<in>set rs. nextRef (store op) \<le> w \<and> w < nextRef (store op1)"
    using A n by fastforce
  have abounds: "\<forall>a\<in>set (concat (map (walletAddressRefs s1) rs)).
      nextRef (store op) \<le> a \<and> a < nextRef (store op1)"
    using A n by fastforce
  have quick: "force \<longrightarrow> op1 = op\<lparr>store := store op1\<rparr>
      \<and> balanceMaps (store op1) = balanceMaps (store op)"
    using A by (simp add: op1)
  have network: "\<not> force \<longrightarrow>
         op1 = op\<lparr>store := store op1, temporalSavedBalanceData := temporalSavedBalanceData op1\<rparr>
         \<and> nextRef (store op) \<le> temporalSavedBalanceData op1
         \<and> temporalSavedBalanceData op1 < nextRef (store op1)
         \<and> balanceMaps (store op1) (temporalSavedBalanceData op1) = Map.empty"
    using A by (simp add: op1)
  show ?thesis
    using A agree bounds abounds quick network
    by (simp add: arr refs view listView_def) (simp add: tw n)
qed


subsection \<open>The balances of a pass\<close>

lemma procedure_effect:
  assumes stable: "stableQuery q f"
    and retrieve: "\<And>w. retrieveWalletBalance node w force op1 = balanceObservable q f w"
    and len: "length (walletArrays (store op1) tw) = length wallets"
    and run: "procedure node wallets tw force op1 op1 = (res, op2)"
  shows "op2 = op1\<lparr>store := store op2\<rparr> \<and> coinsOnly (store op1) (store op2)
   \<and> (\<forall>r. r \<notin> set (walletArrays (store op1) tw) \<longrightarrow>
          walletObjects (store op2) r = walletObjects (store op1) r)
   \<and> (\<forall>r. r \<notin> set (concat (map (walletAddressRefs (store op1)) (walletArrays (store op1) tw))) \<longrightarrow>
          addressObjects (store op2) r = addressObjects (store op1) r)
   \<and> (\<forall>r. r \<noteq> temporalSavedBalanceData op1 \<longrightarrow>
          balanceMaps (store op2) r = balanceMaps (store op1) r)
   \<and> res = (if wallets = [] then Inr [False]
            else if list_all (\<lambda>w. \<not> isl (q op1 w)) (walletArrays (store op1) tw)
            then Inr (map (\<lambda>w. f (projr (q op1 w)) op1) (walletArrays (store op1) tw))
            else Inl RpcError)"
proof (cases "wallets = []")
  case True
  with run have "op2 = op1" "res = Inr [False]"
    by (simp_all add: procedure_def)
  with True show ?thesis
    by simp
next
  case False
  let ?rs = "walletArrays (store op1) tw"
  have fj: "forkJoin (map (balanceObservable q f) ?rs) op1 = (res, op2)"
    using run False by (simp add: procedure_def retrieve)
  have "res = (if list_all (\<lambda>w. \<not> isl (q op1 w)) ?rs
      then Inr (map (\<lambda>w. f (projr (q op1 w)) op1) ?rs) else Inl RpcError)"
    using forkJoin_result [OF stable, of ?rs op1] fj by simp
  with forkJoin_frame [OF fj] False show ?thesis
    by simp
qed

lemma procedure_views:
  assumes stable: "stableQuery q f"
    and retrieve: "\<And>w. retrieveWalletBalance node w force op1 = balanceObservable q f w"
    and base: "listView (store op1) tw = map (withBalance b0) wallets"
    and d: "distinct (walletArrays (store op1) tw)"
      "distinct (concat (map (walletAddressRefs (store op1)) (walletArrays (store op1) tw)))"
    and bal: "\<And>i. i < length wallets \<Longrightarrow>
        projr (q op1 (walletArrays (store op1) tw ! i)) = bal (wallets ! i)"
    and run: "procedure node wallets tw force op1 op1 = (Inr flags, op2)"
  shows "listView (store op2) tw = map (\<lambda>w. withBalance (bal w) w) wallets"
proof -
  let ?rs = "walletArrays (store op1) tw"
  have len: "length ?rs = length wallets"
    using base by (metis length_map listView_def)
  have arrays: "walletArrays (store op2) = walletArrays (store op1)"
    using procedure_effect [OF stable retrieve len run] by (simp add: coinsOnly_def)
  have views: "map (walletView (store op2)) ?rs =
      map (\<lambda>w. applyBalance (projr (q op1 w)) (walletView (store op1) w)) ?rs"
  proof (cases "wallets = []")
    case True
    with len show ?thesis by simp
  next
    case False
    then have "forkJoin (map (balanceObservable q f) ?rs) op1 = (Inr flags, op2)"
      using run by (simp add: procedure_def retrieve)
    then show ?thesis
      using d by (rule forkJoin_views [OF stable])
  qed
  have "map (\<lambda>w. applyBalance (projr (q op1 w)) (walletView (store op1) w)) ?rs =
      map (\<lambda>w. withBalance (bal w) w) wallets"
  proof (rule nth_equalityI)
    show "length (map (\<lambda>w. applyBalance (projr (q op1 w)) (walletView (store op1) w)) ?rs) =
        length (map (\<lambda>w. withBalance (bal w) w) wallets)"
      using len by simp
  next
    fix i assume "i < length (map (\<lambda>w. applyBalance (projr (q op1 w)) (walletView (store op1) w)) ?rs)"
    then have i: "i < length wallets" using len by simp
    have "walletView (store op1) (?rs ! i) = withBalance b0 (wallets ! i)"
      using base i len by (metis listView_def nth_map)
    then show "map (\<lambda>w. applyBalance (projr (q op1 w)) (walletView (store op1) w)) ?rs ! i =
        map (\<lambda>w. withBalance (bal w) w) wallets ! i"
      using i len bal [OF i] by (simp add: applyBalance_withBalance)
  qed
  with views show ?thesis
    by (simp add: listView_def arrays)
qed

subsection \<open>The quick pass\<close>

lemma savedQuery_savedBalance:
  "id' (walletObjects (store op1) w) = id' wallet \<Longrightarrow>
   balanceMaps (store op1) = balanceMaps (store op) \<Longrightarrow> savedBalanceData op1 = savedBalanceData op \<Longrightarrow>
   savedQuery w op1 = savedBalance op wallet"
  by (simp add: savedQuery_def savedBalance_def)

lemma listView_nth:
  "listView s tw = map g wallets \<Longrightarrow> i < length wallets \<Longrightarrow>
   walletView s (walletArrays s tw ! i) = g (wallets ! i)"
  by (metis length_map listView_def nth_map)

lemma walletView_id: "id' (walletView s w) = id' (walletObjects s w)"
  by (simp add: walletView_def)

lemma walletView_addresses:
  "map address (addresses (walletView s w)) = walletAddresses s w"
  by (simp add: walletView_def walletAddresses_def walletAddressRefs_def)

lemma withBalance_simps [simp]:
  "id' (withBalance b wallet) = id' wallet"
  "label (withBalance b wallet) = label wallet"
  "WalletWithBalance.coins (withBalance b wallet) = predicted b"
  "map address (addresses (withBalance b wallet)) = map address (addresses wallet)"
  by (simp_all add: withBalance_def comp_def)

lemma quick_pass:
  assumes run: "refreshBalances node wallets True op = (res, op')"
  shows "res = Inr ()
   \<and> publishedView op' = Some (map (\<lambda>w. withBalance (savedBalance op w) w) wallets)
   \<and> walletsWithBalanceSubject op' = walletsWithBalanceSubject op @ [walletsWithBalanceList op']
   \<and> hasPendingTransactionsSubject op' =
       hasPendingTransactionsSubject op @
         [wallets \<noteq> [] \<and> last (hasPendingTransactionsSubject op)]
   \<and> op' = op\<lparr>store := store op', walletsWithBalanceList := walletsWithBalanceList op',
               walletsWithBalanceSubject := walletsWithBalanceSubject op',
               hasPendingTransactionsSubject := hasPendingTransactionsSubject op'\<rparr>
   \<and> nextRef (store op) \<le> nextRef (store op')
   \<and> (\<forall>r<nextRef (store op).
         walletArrays (store op') r = walletArrays (store op) r
         \<and> walletObjects (store op') r = walletObjects (store op) r
         \<and> addressArrays (store op') r = addressArrays (store op) r
         \<and> addressObjects (store op') r = addressObjects (store op) r
         \<and> (r \<noteq> temporalSavedBalanceData op \<longrightarrow>
               balanceMaps (store op') r = balanceMaps (store op) r))
   \<and> publishedWellFormed op'"
proof -
  obtain tw op1 where bgn: "refreshBalancesBegin wallets True op = (tw, op1)"
    by (cases "refreshBalancesBegin wallets True op")
  note B = refreshBalancesBegin_effect [OF bgn]
  let ?rs = "walletArrays (store op1) tw"
  let ?q = "\<lambda>(op :: EthBalanceAndOutputsOperator) w. (Inr (savedQuery w op1) :: RpcError + WalletBalance)"
  let ?f = "\<lambda>(b :: WalletBalance) op. last (hasPendingTransactionsSubject op)"
  have op1: "op1 = op\<lparr>store := store op1\<rparr>" and maps: "balanceMaps (store op1) = balanceMaps (store op)"
    using B by simp_all
  have saved1: "savedBalanceData op1 = savedBalanceData op"
    "temporalSavedBalanceData op1 = temporalSavedBalanceData op"
    "hasPendingTransactionsSubject op1 = hasPendingTransactionsSubject op"
    by (subst op1, simp)+
  have base: "listView (store op1) tw = map (withBalance newWalletBalance) wallets"
    using B by simp
  have agree: "agreeBelow (nextRef (store op)) (store op) (store op1)"
    and next1: "nextRef (store op) \<le> nextRef (store op1)"
    using B by auto
  have len: "length ?rs = length wallets"
    using base by (metis length_map listView_def)
  obtain r2 op2 where proc: "procedure node wallets tw True op1 op1 = (r2, op2)"
    by (cases "procedure node wallets tw True op1 op1")
  note P = procedure_effect [OF stableQuery_quick retrieveWalletBalance_quick len proc]
  have r2: "r2 = Inr (if wallets = [] then [False]
      else map (\<lambda>w. last (hasPendingTransactionsSubject op)) ?rs)"
    using P by (simp add: list_all_iff saved1)
  let ?flags = "if wallets = [] then [False]
      else map (\<lambda>w. last (hasPendingTransactionsSubject op)) ?rs"
  have proc': "procedure node wallets tw True op1 op1 = (Inr ?flags, op2)"
    using proc r2 by simp
  have any: "list_ex (\<lambda>value. value) ?flags =
      (wallets \<noteq> [] \<and> last (hasPendingTransactionsSubject op))"
  proof (cases "wallets = []")
    case True
    then show ?thesis by simp
  next
    case False
    with len have "?rs \<noteq> []" by auto
    then obtain w where "w \<in> set ?rs" by (cases ?rs) auto
    with False show ?thesis by (auto simp: list_ex_iff)
  qed
  have views: "listView (store op2) tw = map (\<lambda>w. withBalance (savedBalance op w) w) wallets"
  proof (rule procedure_views [OF stableQuery_quick retrieveWalletBalance_quick base _ _ _ proc'])
    show "distinct ?rs" using B by simp
    show "distinct (concat (map (walletAddressRefs (store op1)) ?rs))" using B by simp
    fix i assume i: "i < length wallets"
    have "id' (walletObjects (store op1) (?rs ! i)) = id' (wallets ! i)"
      using listView_nth [OF base i] by (metis walletView_id withBalance_simps(1))
    then show "projr (Inr (savedQuery (?rs ! i) op1) :: RpcError + WalletBalance) =
        savedBalance op (wallets ! i)"
      using maps saved1 by (simp add: savedQuery_savedBalance)
  qed
  have op2: "op2 = op1\<lparr>store := store op2\<rparr>"
    using P by simp
  have res: "res = Inr ()" and op': "op' = refreshBalancesTap tw True ?flags op2"
    using run bgn proc' by (simp_all add: refreshBalances_def refreshBalancesEnd_def)
  have tap: "op' = op2\<lparr>hasPendingTransactionsSubject :=
        hasPendingTransactionsSubject op2 @ [wallets \<noteq> [] \<and> last (hasPendingTransactionsSubject op)],
      walletsWithBalanceList := Some tw,
      walletsWithBalanceSubject := walletsWithBalanceSubject op2 @ [Some tw]\<rparr>"
    unfolding op' refreshBalancesTap_def Let_def any
    by (simp add: updateWalletsWithBalanceList_def updateWholeList_eq split: option.splits)
  have fields2: "hasPendingTransactionsSubject op2 = hasPendingTransactionsSubject op"
    "walletsWithBalanceSubject op2 = walletsWithBalanceSubject op"
    by (subst op2, subst op1, simp)+
  have eq: "op' = op\<lparr>store := store op2, walletsWithBalanceList := Some tw,
      walletsWithBalanceSubject := walletsWithBalanceSubject op @ [Some tw],
      hasPendingTransactionsSubject := hasPendingTransactionsSubject op @
        [wallets \<noteq> [] \<and> last (hasPendingTransactionsSubject op)]\<rparr>"
    by (subst tap, subst op2, subst op1) (simp add: fields2)
  have store': "store op' = store op2" and list': "walletsWithBalanceList op' = Some tw"
    by (simp_all add: eq)
  have frame: "\<forall>r<nextRef (store op).
         walletArrays (store op2) r = walletArrays (store op) r
         \<and> walletObjects (store op2) r = walletObjects (store op) r
         \<and> addressArrays (store op2) r = addressArrays (store op) r
         \<and> addressObjects (store op2) r = addressObjects (store op) r
         \<and> (r \<noteq> temporalSavedBalanceData op \<longrightarrow>
               balanceMaps (store op2) r = balanceMaps (store op) r)"
  proof (intro allI impI)
    fix r assume r: "r < nextRef (store op)"
    have Bw: "\<forall>w\<in>set ?rs. nextRef (store op) \<le> w"
      and Ba: "\<forall>a\<in>set (concat (map (walletAddressRefs (store op1)) ?rs)). nextRef (store op) \<le> a"
      using B by blast+
    have "r \<notin> set ?rs"
      using Bw r by auto
    moreover have "r \<notin> set (concat (map (walletAddressRefs (store op1)) ?rs))"
      using Ba r by (metis not_le)
    moreover have "walletArrays (store op2) = walletArrays (store op1)"
      "addressArrays (store op2) = addressArrays (store op1)"
      using P by (simp_all add: coinsOnly_def)
    ultimately show "walletArrays (store op2) r = walletArrays (store op) r
         \<and> walletObjects (store op2) r = walletObjects (store op) r
         \<and> addressArrays (store op2) r = addressArrays (store op) r
         \<and> addressObjects (store op2) r = addressObjects (store op) r
         \<and> (r \<noteq> temporalSavedBalanceData op \<longrightarrow>
               balanceMaps (store op2) r = balanceMaps (store op) r)"
      using P agree r by (simp add: agreeBelow_def saved1)
  qed
  have nxt: "nextRef (store op) \<le> nextRef (store op2)"
    using P next1 by (simp add: coinsOnly_def)
  have wf: "publishedWellFormed op'"
  proof -
    have arr: "walletArrays (store op2) = walletArrays (store op1)"
      "nextRef (store op2) = nextRef (store op1)"
      using P by (simp_all add: coinsOnly_def)
    have "distinct ?rs" "\<forall>w\<in>set ?rs. w < nextRef (store op1)" "tw < nextRef (store op1)"
      using B by blast+
    then show ?thesis
      by (simp add: publishedWellFormed_def list' store' arr list_all_iff)
  qed
  show ?thesis
    using res views frame nxt wf
    by (simp add: publishedView_def store' list') (simp add: eq)
qed


subsection \<open>The network pass\<close>

lemma map_eq_nth:
  "length rs = length wallets \<Longrightarrow> (\<And>i. i < length wallets \<Longrightarrow> g (rs ! i) = h (wallets ! i)) \<Longrightarrow>
   map g rs = map h wallets"
  by (rule nth_equalityI) simp_all

lemma network_balances:
  assumes bgn: "refreshBalancesBegin wallets False op = (tw, op1)"
    and proc: "procedure node wallets tw False op1 op1 = (r2, op2)"
  shows "r2 = (if list_all (\<lambda>w. \<not> isl (nodeBalance (currentCoin op) node w)) wallets
               then Inr (if wallets = [] then [False]
                         else map (\<lambda>w. \<not> isEqualTo
                                     (current (projr (nodeBalance (currentCoin op) node w)))
                                     (predicted (projr (nodeBalance (currentCoin op) node w))))
                                wallets)
               else Inl RpcError)
   \<and> op2 = op\<lparr>store := store op2, temporalSavedBalanceData := temporalSavedBalanceData op2\<rparr>
   \<and> agreeBelow (nextRef (store op)) (store op) (store op2)
   \<and> nextRef (store op) \<le> temporalSavedBalanceData op2
   \<and> temporalSavedBalanceData op2 < nextRef (store op2)
   \<and> nextRef (store op) \<le> nextRef (store op2)
   \<and> nextRef (store op) \<le> tw \<and> tw < nextRef (store op2)
   \<and> distinct (walletArrays (store op2) tw)
   \<and> (\<forall>w\<in>set (walletArrays (store op2) tw). nextRef (store op) \<le> w \<and> w < nextRef (store op2))
   \<and> length (walletArrays (store op2) tw) = length wallets
   \<and> (\<forall>flags. r2 = Inr flags \<longrightarrow>
         listView (store op2) tw =
           map (\<lambda>w. withBalance (projr (nodeBalance (currentCoin op) node w)) w) wallets)"
proof -
  note B = refreshBalancesBegin_effect [OF bgn]
  let ?rs = "walletArrays (store op1) tw"
  let ?q = "\<lambda>op w. snd (nodeQuery (currentCoin op) node (walletAddresses (store op) w))"
  let ?f = "\<lambda>(b :: WalletBalance) (op :: EthBalanceAndOutputsOperator).
      \<not> isEqualTo (current b) (predicted b)"
  let ?b = "\<lambda>w. nodeBalance (currentCoin op) node w"
  have op1: "op1 = op\<lparr>store := store op1, temporalSavedBalanceData := temporalSavedBalanceData op1\<rparr>"
    and t1: "nextRef (store op) \<le> temporalSavedBalanceData op1"
      "temporalSavedBalanceData op1 < nextRef (store op1)"
    and base: "listView (store op1) tw = map (withBalance newWalletBalance) wallets"
    and agree: "agreeBelow (nextRef (store op)) (store op) (store op1)"
    and d: "distinct ?rs" "distinct (concat (map (walletAddressRefs (store op1)) ?rs))"
    and Bw: "\<forall>w\<in>set ?rs. nextRef (store op) \<le> w \<and> w < nextRef (store op1)"
    and Ba: "\<forall>a\<in>set (concat (map (walletAddressRefs (store op1)) ?rs)). nextRef (store op) \<le> a"
    and tw: "nextRef (store op) \<le> tw" "tw < nextRef (store op1)"
    using B by blast+
  have coin1: "currentCoin op1 = currentCoin op"
    by (subst op1) simp
  have len: "length ?rs = length wallets"
    using base by (metis length_map listView_def)
  have q: "\<And>i. i < length wallets \<Longrightarrow> ?q op1 (?rs ! i) = ?b (wallets ! i)"
  proof -
    fix i assume i: "i < length wallets"
    have "walletAddresses (store op1) (?rs ! i) = map address (addresses (wallets ! i))"
      using listView_nth [OF base i] by (metis walletView_addresses withBalance_simps(4))
    then show "?q op1 (?rs ! i) = ?b (wallets ! i)"
      by (simp add: nodeBalance_def coin1)
  qed
  have qmap: "map (?q op1) ?rs = map ?b wallets"
    by (rule map_eq_nth [OF len]) (rule q)
  note P = procedure_effect [OF stableQuery_network retrieveWalletBalance_network len proc]
  have all: "list_all (\<lambda>w. \<not> isl (?q op1 w)) ?rs = list_all (\<lambda>w. \<not> isl (?b w)) wallets"
  proof -
    have "list_all (\<lambda>w. \<not> isl (?q op1 w)) ?rs = list_all (\<lambda>x. \<not> isl x) (map (?q op1) ?rs)"
      by (simp add: list_all_iff)
    also have "\<dots> = list_all (\<lambda>x. \<not> isl x) (map ?b wallets)"
      by (simp only: qmap)
    finally show ?thesis by (simp add: list_all_iff)
  qed
  have flags: "map (\<lambda>w. ?f (projr (?q op1 w)) op1) ?rs =
      map (\<lambda>w. \<not> isEqualTo (current (projr (?b w))) (predicted (projr (?b w)))) wallets"
    by (rule map_eq_nth [OF len]) (simp add: q)
  have r2: "r2 = (if list_all (\<lambda>w. \<not> isl (?b w)) wallets
               then Inr (if wallets = [] then [False]
                         else map (\<lambda>w. \<not> isEqualTo (current (projr (?b w)))
                                     (predicted (projr (?b w)))) wallets)
               else Inl RpcError)"
    using P all flags by (auto simp: list_all_iff)
  have op2: "op2 = op1\<lparr>store := store op2\<rparr>" and c: "coinsOnly (store op1) (store op2)"
    and Pw: "\<forall>r. r \<notin> set ?rs \<longrightarrow> walletObjects (store op2) r = walletObjects (store op1) r"
    and Pa: "\<forall>r. r \<notin> set (concat (map (walletAddressRefs (store op1)) ?rs)) \<longrightarrow>
          addressObjects (store op2) r = addressObjects (store op1) r"
    and Pm: "\<forall>r. r \<noteq> temporalSavedBalanceData op1 \<longrightarrow>
          balanceMaps (store op2) r = balanceMaps (store op1) r"
    using P by blast+
  have t2: "temporalSavedBalanceData op2 = temporalSavedBalanceData op1"
    by (subst op2) simp
  have eq: "op2 = op\<lparr>store := store op2, temporalSavedBalanceData := temporalSavedBalanceData op2\<rparr>"
    unfolding t2 by (subst op2, subst op1) simp
  have arrays: "walletArrays (store op2) = walletArrays (store op1)"
    "addressArrays (store op2) = addressArrays (store op1)"
    "nextRef (store op2) = nextRef (store op1)"
    using c by (simp_all add: coinsOnly_def)
  have agree2: "agreeBelow (nextRef (store op)) (store op) (store op2)"
    unfolding agreeBelow_def
  proof (intro allI impI)
    fix r assume r: "r < nextRef (store op)"
    have "r \<notin> set ?rs" using Bw r by auto
    moreover have "r \<notin> set (concat (map (walletAddressRefs (store op1)) ?rs))"
      using Ba r by (metis not_le)
    moreover have "r \<noteq> temporalSavedBalanceData op1" using t1 r by simp
    ultimately show "walletArrays (store op2) r = walletArrays (store op) r \<and>
         walletObjects (store op2) r = walletObjects (store op) r \<and>
         addressArrays (store op2) r = addressArrays (store op) r \<and>
         addressObjects (store op2) r = addressObjects (store op) r \<and>
         balanceMaps (store op2) r = balanceMaps (store op) r"
      using Pw Pa Pm agree r by (simp add: agreeBelow_def arrays)
  qed
  have views: "\<forall>flags. r2 = Inr flags \<longrightarrow>
         listView (store op2) tw = map (\<lambda>w. withBalance (projr (?b w)) w) wallets"
  proof (intro allI impI)
    fix flags assume "r2 = Inr flags"
    then have run: "procedure node wallets tw False op1 op1 = (Inr flags, op2)"
      using proc by simp
    show "listView (store op2) tw = map (\<lambda>w. withBalance (projr (?b w)) w) wallets"
      by (rule procedure_views [OF stableQuery_network retrieveWalletBalance_network base d _ run])
        (simp add: q)
  qed
  have next1: "nextRef (store op) \<le> nextRef (store op1)"
    using tw by simp
  show ?thesis
    using r2 eq agree2 t1 tw d(1) Bw len views next1
    by (simp add: t2 arrays)
qed


subsection \<open>The coins of the wallets after the reconciliation\<close>

lemma isEqualTo_eq: "isEqualTo a b \<Longrightarrow> a = b"
  by (cases a; cases b) simp_all

lemma updateAddressCoins_frame:
  "walletObjects (fst (updateAddressCoins c t sc)) = walletObjects (fst sc)
   \<and> walletArrays (fst (updateAddressCoins c t sc)) = walletArrays (fst sc)
   \<and> addressArrays (fst (updateAddressCoins c t sc)) = addressArrays (fst sc)
   \<and> balanceMaps (fst (updateAddressCoins c t sc)) = balanceMaps (fst sc)
   \<and> nextRef (fst (updateAddressCoins c t sc)) = nextRef (fst sc)"
  by (cases sc) (simp add: updateAddressCoins_def)

lemma updateAddresses_frame:
  "walletObjects (fst (updateAddresses cas k tas sc)) = walletObjects (fst sc)
   \<and> walletArrays (fst (updateAddresses cas k tas sc)) = walletArrays (fst sc)
   \<and> addressArrays (fst (updateAddresses cas k tas sc)) = addressArrays (fst sc)
   \<and> balanceMaps (fst (updateAddresses cas k tas sc)) = balanceMaps (fst sc)
   \<and> nextRef (fst (updateAddresses cas k tas sc)) = nextRef (fst sc)"
  by (induction cas arbitrary: k sc) (simp_all add: updateAddressCoins_frame)

lemma updateWalletBalances_wallets:
  "walletArrays (fst (updateWalletBalances c t (s, ch))) = walletArrays s
   \<and> addressArrays (fst (updateWalletBalances c t (s, ch))) = addressArrays s
   \<and> balanceMaps (fst (updateWalletBalances c t (s, ch))) = balanceMaps s
   \<and> nextRef (fst (updateWalletBalances c t (s, ch))) = nextRef s
   \<and> (\<forall>r. r \<noteq> c \<longrightarrow> walletObjects (fst (updateWalletBalances c t (s, ch))) r = walletObjects s r)
   \<and> walletCoins (fst (updateWalletBalances c t (s, ch))) c = walletCoins s t"
proof -
  define s1 where "s1 = (if \<not> isEqualTo (walletCoins s c) (walletCoins s t)
             then setWalletCoins c (walletCoins s t) s else s)"
  define ch1 where "ch1 = (if \<not> isEqualTo (walletCoins s c) (walletCoins s t) then True else ch)"
  have s1: "walletArrays s1 = walletArrays s" "addressArrays s1 = addressArrays s"
    "balanceMaps s1 = balanceMaps s" "nextRef s1 = nextRef s"
    "\<forall>r. r \<noteq> c \<longrightarrow> walletObjects s1 r = walletObjects s r"
    by (simp_all add: s1_def)
  have c1: "walletCoins s1 c = walletCoins s t"
    by (auto simp: s1_def walletCoins_def dest: isEqualTo_eq)
  define cas where "cas = addressArrays s1 (addresses (walletObjects s1 c))"
  define tas where "tas = addressArrays s1 (addresses (walletObjects s1 t))"
  have unfold: "updateWalletBalances c t (s, ch) =
      (if length cas \<noteq> length tas
       then (setWalletAddresses c (addresses (walletObjects s1 t)) s1, True)
       else updateAddresses cas 0 tas (s1, ch1))"
    by (simp add: updateWalletBalances_def Let_def walletCoins_def s1_def ch1_def cas_def tas_def)
  show ?thesis
  proof (cases "length cas \<noteq> length tas")
    case True
    then have "fst (updateWalletBalances c t (s, ch)) =
        setWalletAddresses c (addresses (walletObjects s1 t)) s1"
      by (simp add: unfold)
    then show ?thesis
      using s1 c1 by (simp add: walletCoins_def)
  next
    case False
    then have eq: "fst (updateWalletBalances c t (s, ch)) =
        fst (updateAddresses cas 0 tas (s1, ch1))"
      by (simp add: unfold)
    show ?thesis
      unfolding eq using updateAddresses_frame [of cas 0 tas "(s1, ch1)"] s1 c1
      by (simp add: walletCoins_def)
  qed
qed

lemma updateBalances_wallets:
  "distinct ws \<Longrightarrow> (\<forall>i<length ws. ts ! (k + i) \<notin> set ws) \<Longrightarrow>
   walletArrays (fst (updateBalances ws k ts (s, ch))) = walletArrays s
   \<and> addressArrays (fst (updateBalances ws k ts (s, ch))) = addressArrays s
   \<and> balanceMaps (fst (updateBalances ws k ts (s, ch))) = balanceMaps s
   \<and> nextRef (fst (updateBalances ws k ts (s, ch))) = nextRef s
   \<and> (\<forall>r. r \<notin> set ws \<longrightarrow> walletObjects (fst (updateBalances ws k ts (s, ch))) r = walletObjects s r)
   \<and> (\<forall>i<length ws. walletCoins (fst (updateBalances ws k ts (s, ch))) (ws ! i) =
                       walletCoins s (ts ! (k + i)))"
proof (induction ws arbitrary: k s ch)
  case Nil
  show ?case by simp
next
  case (Cons c ws)
  let ?sc1 = "updateWalletBalances c (ts ! k) (s, ch)"
  let ?s1 = "fst ?sc1"
  let ?s' = "fst (updateBalances ws (Suc k) ts (?s1, snd ?sc1))"
  note W = updateWalletBalances_wallets [of c "ts ! k" s ch]
  have d: "distinct ws" and c: "c \<notin> set ws"
    using Cons.prems(1) by simp_all
  have t: "\<forall>i<length ws. ts ! (Suc k + i) \<notin> set ws"
    and tc: "\<forall>i<length ws. ts ! (Suc k + i) \<noteq> c"
    using Cons.prems(2) by fastforce+
  note IH = Cons.IH [OF d t, of ?s1 "snd ?sc1"]
  have unfold: "updateBalances (c # ws) k ts (s, ch) = updateBalances ws (Suc k) ts (?s1, snd ?sc1)"
    by simp
  have first: "walletCoins ?s' c = walletCoins s (ts ! k)"
    using IH c W by (simp add: walletCoins_def)
  have rest: "\<forall>i<length ws. walletCoins ?s' (ws ! i) = walletCoins s (ts ! (Suc k + i))"
    using IH W tc by (simp add: walletCoins_def)
  have coins: "\<forall>i<length (c # ws). walletCoins ?s' ((c # ws) ! i) = walletCoins s (ts ! (k + i))"
    using first rest by (auto simp: nth_Cons split: nat.splits)
  have frame: "\<forall>r. r \<notin> set (c # ws) \<longrightarrow> walletObjects ?s' r = walletObjects s r"
    using IH W by simp
  show ?case
    unfolding unfold using IH W coins frame by simp
qed

subsection \<open>The callback of tap in a network pass\<close>

lemma updateWalletsWithBalanceList_network:
  assumes fresh: "\<forall>w\<in>set (walletArrays (store op2) tw). n \<le> w"
    and wf: "\<And>published. walletsWithBalanceList op2 = Some published \<Longrightarrow>
        distinct (walletArrays (store op2) published)
        \<and> (\<forall>w\<in>set (walletArrays (store op2) published). w < n)"
  shows "\<exists>l. walletsWithBalanceList (updateWalletsWithBalanceList tw False op2) = Some l
     \<and> (l = tw \<or> walletsWithBalanceList op2 = Some l)
     \<and> map (walletCoins (store (updateWalletsWithBalanceList tw False op2)))
          (walletArrays (store (updateWalletsWithBalanceList tw False op2)) l) =
        map (walletCoins (store op2)) (walletArrays (store op2) tw)"
  and "walletArrays (store (updateWalletsWithBalanceList tw False op2)) = walletArrays (store op2)"
  and "balanceMaps (store (updateWalletsWithBalanceList tw False op2)) = balanceMaps (store op2)"
  and "nextRef (store (updateWalletsWithBalanceList tw False op2)) = nextRef (store op2)"
  and "updateWalletsWithBalanceList tw False op2 =
       op2\<lparr>store := store (updateWalletsWithBalanceList tw False op2),
           walletsWithBalanceList := walletsWithBalanceList (updateWalletsWithBalanceList tw False op2),
           walletsWithBalanceSubject :=
             walletsWithBalanceSubject (updateWalletsWithBalanceList tw False op2)\<rparr>"
proof -
  let ?op' = "updateWalletsWithBalanceList tw False op2"
  let ?ts = "walletArrays (store op2) tw"
  have goal: "(\<exists>l. walletsWithBalanceList ?op' = Some l
     \<and> (l = tw \<or> walletsWithBalanceList op2 = Some l)
     \<and> map (walletCoins (store ?op')) (walletArrays (store ?op') l) =
        map (walletCoins (store op2)) ?ts)
     \<and> walletArrays (store ?op') = walletArrays (store op2)
     \<and> balanceMaps (store ?op') = balanceMaps (store op2)
     \<and> nextRef (store ?op') = nextRef (store op2)
     \<and> ?op' = op2\<lparr>store := store ?op', walletsWithBalanceList := walletsWithBalanceList ?op',
           walletsWithBalanceSubject := walletsWithBalanceSubject ?op'\<rparr>"
  proof (cases "walletsWithBalanceList op2")
    case None
    then have "?op' = op2\<lparr>walletsWithBalanceList := Some tw,
        walletsWithBalanceSubject := walletsWithBalanceSubject op2 @ [Some tw]\<rparr>"
      by (simp add: updateWalletsWithBalanceList_def updateWholeList_eq)
    then show ?thesis by simp
  next
    case (Some cur)
    let ?ws = "walletArrays (store op2) cur"
    show ?thesis
    proof (cases "length ?ws \<noteq> length ?ts \<or> idChangeDetected (store op2) ?ws ?ts")
      case True
      then have "?op' = op2\<lparr>walletsWithBalanceList := Some tw,
          walletsWithBalanceSubject := walletsWithBalanceSubject op2 @ [Some tw]\<rparr>"
        using Some by (auto simp: updateWalletsWithBalanceList_def updateWholeList_eq)
      then show ?thesis by simp
    next
      case False
      then have len: "length ?ws = length ?ts" by simp
      define sc where "sc = updateBalances ?ws 0 ?ts (store op2, False)"
      have op': "?op' = (if snd sc then informDataUpdated (op2\<lparr>store := fst sc\<rparr>)
          else op2\<lparr>store := fst sc\<rparr>)"
        using Some False
        by (simp add: updateWalletsWithBalanceList_def sc_def case_prod_beta)
      have store': "store ?op' = fst sc" and list': "walletsWithBalanceList ?op' = Some cur"
        using Some by (simp_all add: op' informDataUpdated_def)
      have d: "distinct ?ws" and below: "\<forall>w\<in>set ?ws. w < n"
        using wf [OF Some] by simp_all
      have apart: "\<forall>i<length ?ws. ?ts ! (0 + i) \<notin> set ?ws"
      proof (intro allI impI)
        fix i assume "i < length ?ws"
        then have "?ts ! i \<in> set ?ts" using len by simp
        then have "n \<le> ?ts ! i" using fresh by blast
        then show "?ts ! (0 + i) \<notin> set ?ws" using below by auto
      qed
      note U = updateBalances_wallets [OF d apart, of "store op2" False]
      have arrays: "walletArrays (fst sc) = walletArrays (store op2)"
        and maps: "balanceMaps (fst sc) = balanceMaps (store op2)"
        and nxt: "nextRef (fst sc) = nextRef (store op2)"
        and coins: "\<forall>i<length ?ws. walletCoins (fst sc) (?ws ! i) = walletCoins (store op2) (?ts ! i)"
        using U by (simp_all add: sc_def)
      have "map (walletCoins (fst sc)) ?ws = map (walletCoins (store op2)) ?ts"
        by (rule nth_equalityI) (use len coins in simp_all)
      moreover have same: "op2\<lparr>walletsWithBalanceList := Some cur\<rparr> = op2"
        using Some by (cases op2) simp
      have op'': "?op' = (if snd sc
          then informDataUpdated (op2\<lparr>walletsWithBalanceList := Some cur\<rparr>\<lparr>store := fst sc\<rparr>)
          else op2\<lparr>walletsWithBalanceList := Some cur\<rparr>\<lparr>store := fst sc\<rparr>)"
        by (simp only: op' same)
      have "?op' = op2\<lparr>store := fst sc, walletsWithBalanceList := Some cur,
          walletsWithBalanceSubject := walletsWithBalanceSubject ?op'\<rparr>"
        by (subst (1 2) op'') (simp add: informDataUpdated_def)
      ultimately show ?thesis
        using arrays maps nxt
        by (simp add: store' list' Some)
    qed
  qed
  from goal show "\<exists>l. walletsWithBalanceList ?op' = Some l
     \<and> (l = tw \<or> walletsWithBalanceList op2 = Some l)
     \<and> map (walletCoins (store ?op')) (walletArrays (store ?op') l) =
        map (walletCoins (store op2)) ?ts"
    by blast
  from goal show "walletArrays (store ?op') = walletArrays (store op2)" by blast
  from goal show "balanceMaps (store ?op') = balanceMaps (store op2)" by blast
  from goal show "nextRef (store ?op') = nextRef (store op2)" by blast
  from goal show "?op' = op2\<lparr>store := store ?op',
      walletsWithBalanceList := walletsWithBalanceList ?op',
      walletsWithBalanceSubject := walletsWithBalanceSubject ?op'\<rparr>" by blast
qed

subsection \<open>The subscriptions during a network pass\<close>

lemma forkJoin_subscriptions:
  assumes q: "\<And>op w. q (op\<lparr>subscriptions := x\<rparr>) w = q op w"
    and f: "\<And>b op. f b (op\<lparr>subscriptions := x\<rparr>) = f b op"
  shows "forkJoin (map (balanceObservable q f) rs) (op\<lparr>subscriptions := x\<rparr>) =
   (case forkJoin (map (balanceObservable q f) rs) op of
      (r, op') \<Rightarrow> (r, op'\<lparr>subscriptions := x\<rparr>))"
proof (induction rs arbitrary: op)
  case Nil
  show ?case by simp
next
  case (Cons w rs)
  show ?case
  proof (cases "q op w")
    case (Inl e)
    then show ?thesis by (simp add: balanceObservable_def q)
  next
    case (Inr b)
    define op1 where "op1 = op\<lparr>store := walletStep b w (temporalSavedBalanceData op) (store op)\<rparr>"
    have a: "balanceObservable q f w (op\<lparr>subscriptions := x\<rparr>) =
        (Inr (f b op), op1\<lparr>subscriptions := x\<rparr>)"
      using Inr by (simp add: balanceObservable_def q f op1_def)
    have b: "balanceObservable q f w op = (Inr (f b op), op1)"
      using Inr by (simp add: balanceObservable_def op1_def)
    show ?thesis
      by (simp add: a b Cons.IH split: prod.splits sum.splits)
  qed
qed

lemma refreshBalancesTap_subscriptions:
  "refreshBalancesTap tw False flags (op\<lparr>subscriptions := x\<rparr>) =
   (refreshBalancesTap tw False flags op)\<lparr>subscriptions := x\<rparr>"
  by (simp add: refreshBalancesTap_def Let_def updateWalletsWithBalanceList_def
      updateWholeList_eq informDataUpdated_def case_prod_beta split: option.splits)

lemma refreshBalancesEnd_subscriptions:
  "refreshBalancesEnd node wallets tw False (op\<lparr>subscriptions := x\<rparr>) =
   (case refreshBalancesEnd node wallets tw False op of (r, op') \<Rightarrow> (r, op'\<lparr>subscriptions := x\<rparr>))"
  by (simp add: refreshBalancesEnd_def procedure_def retrieveWalletBalance_network
      forkJoin_subscriptions refreshBalancesTap_subscriptions split: prod.splits sum.splits)

subsection \<open>A cycle of a subscription\<close>

lemma refreshBalancesBegin_subscriptions:
  "subscriptions (snd (refreshBalancesBegin wallets force op)) = subscriptions op"
  by (simp add: refreshBalancesBegin_def case_prod_beta)

lemma passEnds_closed:
  "k < length (subscriptions op) \<Longrightarrow> subscriptions op ! k = Closed \<Longrightarrow> passEnds node k op = op"
  by (simp add: passEnds_def)

lemma closeSubscription_closed:
  "k < length (subscriptions op) \<Longrightarrow>
   k < length (subscriptions (closeSubscription k op))
   \<and> subscriptions (closeSubscription k op) ! k = Closed"
  by (simp add: closeSubscription_def)

lemma startDataRefreshSubscription_length:
  "length (subscriptions op) \<le> length (subscriptions (startDataRefreshSubscription d u op))"
  by (simp add: startDataRefreshSubscription_def unsubscribe_def Let_def split: option.splits)

lemma cycle:
  assumes k: "k < length (subscriptions op)"
    and waiting: "subscriptions op ! k = Waiting d u"
    and saved: "savedWalletsList op = Some wallets"
    and quick: "opq = (if u then snd (refreshBalances node wallets True
                   (op\<lparr>refreshingBalanceSubject := refreshingBalanceSubject op @ [True]\<rparr>))
                 else op\<lparr>refreshingBalanceSubject := refreshingBalanceSubject op @ [True]\<rparr>)"
    and run: "refreshBalances node wallets False opq = (r, op')"
  shows "\<exists>tw. passEnds node k (timerFires node k op) =
     closeSubscription k
       ((case r of Inl e \<Rightarrow> refreshError | Inr v \<Rightarrow> refreshNext)
          (op'\<lparr>subscriptions := (subscriptions op)[k := Running wallets tw]\<rparr>))"
proof -
  let ?opr = "op\<lparr>refreshingBalanceSubject := refreshingBalanceSubject op @ [True]\<rparr>"
  obtain rq oq where q: "refreshBalances node wallets True ?opr = (rq, oq)"
    by (cases "refreshBalances node wallets True ?opr")
  note Q = quick_pass [OF q]
  have rq: "rq = Inr ()" using Q by simp
  have oq: "oq = ?opr\<lparr>store := store oq, walletsWithBalanceList := walletsWithBalanceList oq,
               walletsWithBalanceSubject := walletsWithBalanceSubject oq,
               hasPendingTransactionsSubject := hasPendingTransactionsSubject oq\<rparr>"
    using Q by blast
  have "subscriptions oq = subscriptions ?opr"
    by (subst oq) simp
  then have subsq: "subscriptions opq = subscriptions op"
    using quick q by (simp split: if_splits)
  obtain tw op3 where bgn: "refreshBalancesBegin wallets False opq = (tw, op3)"
    by (cases "refreshBalancesBegin wallets False opq")
  have subs3: "subscriptions op3 = subscriptions op"
    using refreshBalancesBegin_subscriptions [of wallets False opq] bgn subsq by simp
  let ?x = "(subscriptions op)[k := Running wallets tw]"
  let ?op4 = "op3\<lparr>subscriptions := ?x\<rparr>"
  let ?fin = "closeSubscription k
       ((case r of Inl e \<Rightarrow> refreshError | Inr v \<Rightarrow> refreshNext) (op'\<lparr>subscriptions := ?x\<rparr>))"
  have end3: "refreshBalancesEnd node wallets tw False op3 = (r, op')"
    using run bgn by (simp add: refreshBalances_def)
  have end4: "refreshBalancesEnd node wallets tw False ?op4 = (r, op'\<lparr>subscriptions := ?x\<rparr>)"
    by (simp add: refreshBalancesEnd_subscriptions end3)
  have pass4: "passEnds node k ?op4 = ?fin"
    using k by (simp add: passEnds_def end4 split: sum.splits)
  have fires: "timerFires node k op = (if wallets = [] then ?fin else ?op4)"
  proof (cases u)
    case True
    then have "opq = oq" using quick q by simp
    then show ?thesis
      using k waiting saved True q rq bgn subs3 pass4
      by (auto simp: timerFires_def Let_def)
  next
    case False
    then have "opq = ?opr" using quick by simp
    then show ?thesis
      using k waiting saved False bgn subs3 pass4
      by (auto simp: timerFires_def Let_def)
  qed
  have len: "k < length (subscriptions ((case r of Inl e \<Rightarrow> refreshError | Inr v \<Rightarrow> refreshNext)
      (op'\<lparr>subscriptions := ?x\<rparr>)))"
  proof -
    have "length ?x \<le> length (subscriptions ((case r of Inl e \<Rightarrow> refreshError | Inr v \<Rightarrow> refreshNext)
      (op'\<lparr>subscriptions := ?x\<rparr>)))"
      using startDataRefreshSubscription_length
      by (cases r) (simp_all add: refreshError_def refreshNext_def
          order_trans [OF _ startDataRefreshSubscription_length])
    then show ?thesis using k by simp
  qed
  have idem: "passEnds node k ?fin = ?fin"
    using closeSubscription_closed [OF len] by (simp add: passEnds_closed)
  have "timerFires node k op = ?fin \<or> timerFires node k op = ?op4"
    by (simp add: fires)
  then have "passEnds node k (timerFires node k op) = ?fin"
    by (elim disjE) (simp_all only: idem pass4)
  then show ?thesis by blast
qed

subsection \<open>The data that a network pass saves\<close>

lemma network_saved:
  assumes bgn: "refreshBalancesBegin wallets False op = (tw, op1)"
    and proc: "procedure node wallets tw False op1 op1 = (Inr flags, op2)"
    and ids: "distinct (map id' wallets)"
  shows "(\<forall>w\<in>set wallets. balanceMaps (store op2) (temporalSavedBalanceData op2) (id' w) =
            Some (projr (nodeBalance (currentCoin op) node w)))
   \<and> (\<forall>k. k \<notin> id' ` set wallets \<longrightarrow>
          balanceMaps (store op2) (temporalSavedBalanceData op2) k = None)"
proof (cases "wallets = []")
  case True
  then have "op2 = op1" using proc by (simp add: procedure_def)
  then show ?thesis
    using refreshBalancesBegin_effect [OF bgn] True by simp
next
  case False
  note B = refreshBalancesBegin_effect [OF bgn]
  let ?rs = "walletArrays (store op1) tw"
  let ?q = "\<lambda>op w. snd (nodeQuery (currentCoin op) node (walletAddresses (store op) w))"
  let ?f = "\<lambda>(b :: WalletBalance) (op :: EthBalanceAndOutputsOperator).
      \<not> isEqualTo (current b) (predicted b)"
  let ?t = "temporalSavedBalanceData op1"
  have op1: "op1 = op\<lparr>store := store op1, temporalSavedBalanceData := temporalSavedBalanceData op1\<rparr>"
    and base: "listView (store op1) tw = map (withBalance newWalletBalance) wallets"
    and empty: "balanceMaps (store op1) ?t = Map.empty"
    using B by blast+
  have coin1: "currentCoin op1 = currentCoin op"
    by (subst op1) simp
  have len: "length ?rs = length wallets"
    using base by (metis length_map listView_def)
  have id: "id' (walletObjects (store op1) (?rs ! i)) = id' (wallets ! i)"
    and q: "?q op1 (?rs ! i) = nodeBalance (currentCoin op) node (wallets ! i)"
    if i: "i < length wallets" for i
  proof -
    show "id' (walletObjects (store op1) (?rs ! i)) = id' (wallets ! i)"
      using listView_nth [OF base i] by (metis walletView_id withBalance_simps(1))
    have "walletAddresses (store op1) (?rs ! i) = map address (addresses (wallets ! i))"
      using listView_nth [OF base i] by (metis walletView_addresses withBalance_simps(4))
    then show "?q op1 (?rs ! i) = nodeBalance (currentCoin op) node (wallets ! i)"
      by (simp add: nodeBalance_def coin1)
  qed
  have idmap: "map (\<lambda>w. id' (walletObjects (store op1) w)) ?rs = map id' wallets"
    by (rule map_eq_nth [OF len]) (rule id)
  have fj: "forkJoin (map (balanceObservable ?q ?f) ?rs) op1 = (Inr flags, op2)"
    using proc False by (simp add: procedure_def retrieveWalletBalance_network)
  have d: "distinct (map (\<lambda>w. id' (walletObjects (store op1) w)) ?rs)"
    using ids by (simp only: idmap)
  note M = forkJoin_map [OF stableQuery_network fj d]
  have t2: "temporalSavedBalanceData op2 = ?t"
    using forkJoin_frame [OF fj] by (metis EthBalanceAndOutputsOperator.select_convs(14)
        EthBalanceAndOutputsOperator.surjective EthBalanceAndOutputsOperator.update_convs(1))
  have one: "\<forall>w\<in>set wallets. balanceMaps (store op2) ?t (id' w) =
            Some (projr (nodeBalance (currentCoin op) node w))"
  proof
    fix w assume "w \<in> set wallets"
    then obtain i where i: "i < length wallets" and w: "w = wallets ! i"
      by (metis in_set_conv_nth)
    have "?rs ! i \<in> set ?rs" using i len by simp
    then have "balanceMaps (store op2) ?t (id' (walletObjects (store op1) (?rs ! i))) =
        Some (projr (?q op1 (?rs ! i)))"
      using M by blast
    then show "balanceMaps (store op2) ?t (id' w) =
        Some (projr (nodeBalance (currentCoin op) node w))"
      by (simp add: id [OF i] q [OF i] w)
  qed
  have two: "\<forall>k. k \<notin> id' ` set wallets \<longrightarrow> balanceMaps (store op2) ?t k = None"
  proof (intro allI impI)
    fix k assume "k \<notin> id' ` set wallets"
    then have "k \<notin> set (map id' wallets)" by simp
    then have "k \<notin> set (map (\<lambda>w. id' (walletObjects (store op1) w)) ?rs)"
      unfolding idmap .
    then have "k \<notin> (\<lambda>w. id' (walletObjects (store op1) w)) ` set ?rs"
      by simp
    then have "balanceMaps (store op2) ?t k = balanceMaps (store op1) ?t k"
      using M by blast
    then show "balanceMaps (store op2) ?t k = None"
      by (simp add: empty)
  qed
  show ?thesis
    using one two by (simp add: t2)
qed

subsection \<open>A network pass from its beginning to its end\<close>

lemma list_ex_flags:
  "list_ex (\<lambda>value. value) (if wallets = [] then [False] else map g wallets) = list_ex g wallets"
  by (simp add: list_ex_iff)

lemma updateBalances_frame:
  "walletArrays (fst (updateBalances ws k ts sc)) = walletArrays (fst sc)
   \<and> addressArrays (fst (updateBalances ws k ts sc)) = addressArrays (fst sc)
   \<and> balanceMaps (fst (updateBalances ws k ts sc)) = balanceMaps (fst sc)
   \<and> nextRef (fst (updateBalances ws k ts sc)) = nextRef (fst sc)"
proof (induction ws arbitrary: k sc)
  case Nil
  show ?case by simp
next
  case (Cons c ws)
  obtain s ch where sc: "sc = (s, ch)" by (cases sc)
  show ?case
    using Cons.IH [of "Suc k" "updateWalletBalances c (ts ! k) (s, ch)"]
      updateWalletBalances_wallets [of c "ts ! k" s ch]
    by (simp add: sc)
qed

lemma updateWalletsWithBalanceList_frame:
  "op3 = updateWalletsWithBalanceList tw force op \<Longrightarrow>
   op3 = op\<lparr>store := store op3, walletsWithBalanceList := walletsWithBalanceList op3,
            walletsWithBalanceSubject := walletsWithBalanceSubject op3\<rparr>
   \<and> walletArrays (store op3) = walletArrays (store op)
   \<and> balanceMaps (store op3) = balanceMaps (store op)
   \<and> nextRef (store op3) = nextRef (store op)"
  using updateBalances_frame [of "walletArrays (store op) (the (walletsWithBalanceList op))" 0
      "walletArrays (store op) tw" "(store op, False)"]
  by (cases op)
    (auto simp: updateWalletsWithBalanceList_def updateWholeList_eq informDataUpdated_def
      case_prod_beta split: option.splits)

lemma network_pass_failure:
  assumes run: "refreshBalances node wallets False op = (res, op')"
    and failed: "\<not> allBalancesAnswered (currentCoin op) node wallets"
  shows "res = Inl RpcError
   \<and> op' = op\<lparr>store := store op', temporalSavedBalanceData := temporalSavedBalanceData op'\<rparr>
   \<and> agreeBelow (nextRef (store op)) (store op) (store op')
   \<and> nextRef (store op) \<le> nextRef (store op')
   \<and> nextRef (store op) \<le> temporalSavedBalanceData op'"
proof -
  obtain tw op1 where bgn: "refreshBalancesBegin wallets False op = (tw, op1)"
    by (cases "refreshBalancesBegin wallets False op")
  obtain r2 op2 where proc: "procedure node wallets tw False op1 op1 = (r2, op2)"
    by (cases "procedure node wallets tw False op1 op1")
  note N = network_balances [OF bgn proc]
  have r2: "r2 = Inl RpcError"
    using N failed by (simp add: allBalancesAnswered_def)
  then have "res = Inl RpcError" "op' = op2"
    using run bgn proc by (simp_all add: refreshBalances_def refreshBalancesEnd_def)
  then show ?thesis
    using N by blast
qed

lemma network_pass_success:
  assumes run: "refreshBalances node wallets False op = (res, op')"
    and answered: "allBalancesAnswered (currentCoin op) node wallets"
  shows "res = Inr ()
   \<and> hasPendingTransactionsSubject op' = hasPendingTransactionsSubject op @
         [list_ex (\<lambda>w. hasPendingTx (projr (nodeBalance (currentCoin op) node w))) wallets]
   \<and> lastBalancesUpdateTimeSubject op' = Suc (lastBalancesUpdateTimeSubject op)
   \<and> firstFullUpdateMadeSubject op' =
         (if last (firstFullUpdateMadeSubject op) then firstFullUpdateMadeSubject op
          else firstFullUpdateMadeSubject op @ [True])
   \<and> savedBalanceData op' = temporalSavedBalanceData op'
   \<and> hadErrorRefreshingBalanceSubject op' = hadErrorRefreshingBalanceSubject op
   \<and> refreshingBalanceSubject op' = refreshingBalanceSubject op
   \<and> subscriptions op' = subscriptions op
   \<and> dataRefreshSubscription op' = dataRefreshSubscription op
   \<and> updatePeriod op' = updatePeriod op
   \<and> errorUpdatePeriod op' = errorUpdatePeriod op
   \<and> savedWalletsList op' = savedWalletsList op
   \<and> currentCoin op' = currentCoin op
   \<and> nextRef (store op) \<le> temporalSavedBalanceData op'
   \<and> temporalSavedBalanceData op' < nextRef (store op')
   \<and> nextRef (store op) \<le> nextRef (store op')
   \<and> (publishedWellFormed op \<longrightarrow>
        publishedWellFormed op'
        \<and> (\<exists>l. walletsWithBalanceList op' = Some l
              \<and> map (walletCoins (store op')) (walletArrays (store op') l) =
                  map (\<lambda>w. predicted (projr (nodeBalance (currentCoin op) node w))) wallets))
   \<and> (distinct (map id' wallets) \<longrightarrow>
        (\<forall>w\<in>set wallets. balanceMaps (store op') (savedBalanceData op') (id' w) =
            Some (projr (nodeBalance (currentCoin op) node w)))
        \<and> (\<forall>k. k \<notin> id' ` set wallets \<longrightarrow>
              balanceMaps (store op') (savedBalanceData op') k = None))"
proof -
  let ?b = "\<lambda>w. projr (nodeBalance (currentCoin op) node w)"
  let ?n = "nextRef (store op)"
  obtain tw op1 where bgn: "refreshBalancesBegin wallets False op = (tw, op1)"
    by (cases "refreshBalancesBegin wallets False op")
  obtain r2 op2 where proc: "procedure node wallets tw False op1 op1 = (r2, op2)"
    by (cases "procedure node wallets tw False op1 op1")
  note N = network_balances [OF bgn proc]
  let ?flags = "if wallets = [] then [False]
      else map (\<lambda>w. \<not> isEqualTo (current (?b w)) (predicted (?b w))) wallets"
  have r2: "r2 = Inr ?flags"
    using N answered by (simp add: allBalancesAnswered_def)
  have op2: "op2 = op\<lparr>store := store op2, temporalSavedBalanceData := temporalSavedBalanceData op2\<rparr>"
    and agree: "agreeBelow ?n (store op) (store op2)"
    and t2: "?n \<le> temporalSavedBalanceData op2" "temporalSavedBalanceData op2 < nextRef (store op2)"
    and n2: "?n \<le> nextRef (store op2)"
    and tw: "?n \<le> tw" "tw < nextRef (store op2)"
    and d: "distinct (walletArrays (store op2) tw)"
    and fresh: "\<forall>w\<in>set (walletArrays (store op2) tw). ?n \<le> w \<and> w < nextRef (store op2)"
    using N by blast+
  have views: "listView (store op2) tw = map (\<lambda>w. withBalance (?b w) w) wallets"
    using N r2 by blast
  have res: "res = Inr ()" and op': "op' = refreshBalancesTap tw False ?flags op2"
    using run bgn proc r2 by (simp_all add: refreshBalances_def refreshBalancesEnd_def)
  define pending where "pending = list_ex (\<lambda>w. hasPendingTx (?b w)) wallets"
  have any: "list_ex (\<lambda>value. value) ?flags = pending"
    unfolding pending_def hasPendingTx_def by (rule list_ex_flags)
  define opa where "opa = op2\<lparr>hasPendingTransactionsSubject :=
      hasPendingTransactionsSubject op2 @ [pending],
    lastBalancesUpdateTimeSubject := Suc (lastBalancesUpdateTimeSubject op2)\<rparr>"
  define op3 where "op3 = updateWalletsWithBalanceList tw False opa"
  have stores: "store opa = store op2" "walletsWithBalanceList opa = walletsWithBalanceList op"
    by (simp add: opa_def, simp add: opa_def, subst op2, simp)
  have tap: "op' = (let op4 = op3\<lparr>savedBalanceData := temporalSavedBalanceData op3\<rparr>
      in if \<not> last (firstFullUpdateMadeSubject op4)
         then op4\<lparr>firstFullUpdateMadeSubject := firstFullUpdateMadeSubject op4 @ [True]\<rparr>
         else op4)"
    unfolding op' refreshBalancesTap_def Let_def any op3_def opa_def by simp
  have fresh': "\<forall>w\<in>set (walletArrays (store opa) tw). ?n \<le> w"
    using fresh by (simp add: stores)
  note F = updateWalletsWithBalanceList_frame [OF op3_def]
  have e3: "op3 = opa\<lparr>store := store op3, walletsWithBalanceList := walletsWithBalanceList op3,
      walletsWithBalanceSubject := walletsWithBalanceSubject op3\<rparr>"
    using F by blast
  have fields3: "hasPendingTransactionsSubject op3 = hasPendingTransactionsSubject op @ [pending]"
    "lastBalancesUpdateTimeSubject op3 = Suc (lastBalancesUpdateTimeSubject op)"
    "hadErrorRefreshingBalanceSubject op3 = hadErrorRefreshingBalanceSubject op"
    "refreshingBalanceSubject op3 = refreshingBalanceSubject op"
    "subscriptions op3 = subscriptions op"
    "dataRefreshSubscription op3 = dataRefreshSubscription op"
    "updatePeriod op3 = updatePeriod op"
    "errorUpdatePeriod op3 = errorUpdatePeriod op"
    "savedWalletsList op3 = savedWalletsList op"
    "currentCoin op3 = currentCoin op"
    by (subst e3, simp add: opa_def, subst op2, simp)+
  have fields: "hasPendingTransactionsSubject op' = hasPendingTransactionsSubject op @ [pending]"
    "lastBalancesUpdateTimeSubject op' = Suc (lastBalancesUpdateTimeSubject op)"
    "hadErrorRefreshingBalanceSubject op' = hadErrorRefreshingBalanceSubject op"
    "refreshingBalanceSubject op' = refreshingBalanceSubject op"
    "subscriptions op' = subscriptions op"
    "dataRefreshSubscription op' = dataRefreshSubscription op"
    "updatePeriod op' = updatePeriod op"
    "errorUpdatePeriod op' = errorUpdatePeriod op"
    "savedWalletsList op' = savedWalletsList op"
    "currentCoin op' = currentCoin op"
    by (simp_all add: tap Let_def fields3)
  have t3: "temporalSavedBalanceData op3 = temporalSavedBalanceData op2"
    by (subst e3) (simp add: opa_def)
  have f3: "firstFullUpdateMadeSubject op3 = firstFullUpdateMadeSubject op"
    by (subst e3, simp add: opa_def, subst op2, simp)
  have saved: "savedBalanceData op' = temporalSavedBalanceData op2"
    "temporalSavedBalanceData op' = temporalSavedBalanceData op2"
    by (simp_all add: tap Let_def t3)
  have first: "firstFullUpdateMadeSubject op' =
      (if last (firstFullUpdateMadeSubject op) then firstFullUpdateMadeSubject op
       else firstFullUpdateMadeSubject op @ [True])"
    by (simp add: tap Let_def f3)
  have store': "store op' = store op3" and list': "walletsWithBalanceList op' = walletsWithBalanceList op3"
    by (simp_all add: tap Let_def)
  have arrays3: "walletArrays (store op3) = walletArrays (store op2)"
    and next3: "nextRef (store op3) = nextRef (store op2)"
    using F by (simp_all add: stores)
  have wf: "publishedWellFormed op'
        \<and> (\<exists>l. walletsWithBalanceList op' = Some l
              \<and> map (walletCoins (store op')) (walletArrays (store op') l) =
                  map (\<lambda>w. predicted (?b w)) wallets)"
    if wf0: "publishedWellFormed op"
  proof -
    have pub: "distinct (walletArrays (store opa) published)
        \<and> (\<forall>w\<in>set (walletArrays (store opa) published). w < ?n)"
      and pub': "published < ?n"
      if "walletsWithBalanceList opa = Some published" for published
    proof -
      from that have cur: "walletsWithBalanceList op = Some published"
        by (simp add: stores)
      with wf0 show "published < ?n"
        by (simp add: publishedWellFormed_def)
      then have "walletArrays (store op2) published = walletArrays (store op) published"
        using agree by (simp add: agreeBelow_def)
      then show "distinct (walletArrays (store opa) published)
        \<and> (\<forall>w\<in>set (walletArrays (store opa) published). w < ?n)"
        using wf0 cur by (simp add: publishedWellFormed_def stores list_all_iff)
    qed
    obtain l where l: "walletsWithBalanceList op3 = Some l"
      and which: "l = tw \<or> walletsWithBalanceList opa = Some l"
      and coins: "map (walletCoins (store op3)) (walletArrays (store op3) l) =
        map (walletCoins (store opa)) (walletArrays (store opa) tw)"
      using updateWalletsWithBalanceList_network(1) [of opa tw ?n, OF fresh' pub]
      unfolding op3_def by blast
    have "map (walletCoins (store op2)) (walletArrays (store op2) tw) =
        map WalletWithBalance.coins (listView (store op2) tw)"
      by (simp add: listView_def walletView_def)
    also have "\<dots> = map (\<lambda>w. predicted (?b w)) wallets"
      by (simp add: views)
    finally have c: "map (walletCoins (store op')) (walletArrays (store op') l) =
        map (\<lambda>w. predicted (?b w)) wallets"
      using coins by (simp add: store' stores)
    have "l < nextRef (store op2) \<and> distinct (walletArrays (store op2) l)
        \<and> (\<forall>w\<in>set (walletArrays (store op2) l). w < nextRef (store op2))"
      using which
    proof
      assume "l = tw"
      then show ?thesis using tw d fresh by simp
    next
      assume a: "walletsWithBalanceList opa = Some l"
      show ?thesis
        using pub [OF a] pub' [OF a] n2 by (auto simp: stores)
    qed
    then have "publishedWellFormed op'"
      by (simp add: publishedWellFormed_def list' l store' arrays3 next3 list_all_iff)
    with c l show ?thesis
      by (simp add: list')
  qed
  have maps3: "balanceMaps (store op3) = balanceMaps (store op2)"
    using F by (simp add: stores)
  have cache: "(\<forall>w\<in>set wallets. balanceMaps (store op') (savedBalanceData op') (id' w) =
            Some (?b w))
        \<and> (\<forall>k. k \<notin> id' ` set wallets \<longrightarrow>
              balanceMaps (store op') (savedBalanceData op') k = None)"
    if ids: "distinct (map id' wallets)"
  proof -
    have "procedure node wallets tw False op1 op1 = (Inr ?flags, op2)"
      using proc r2 by simp
    from network_saved [OF bgn this ids] show ?thesis
      by (simp add: store' maps3 saved)
  qed
  show ?thesis
    using res fields saved first t2 n2 wf cache
    by (simp add: pending_def store' next3)
qed

subsection \<open>The balance of a wallet as a sum\<close>

lemma fold_addAddressBalance_sums:
  "current (fold (addAddressBalance m) xs b) =
     foldl plus (current b)
       (map (\<lambda>a. current (case m (Str a) of Some x \<Rightarrow> x | None \<Rightarrow> newAddressBalance)) xs)
   \<and> predicted (fold (addAddressBalance m) xs b) =
     foldl plus (predicted b)
       (map (\<lambda>a. predicted (case m (Str a) of Some x \<Rightarrow> x | None \<Rightarrow> newAddressBalance)) xs)"
  by (induction xs arbitrary: b) (simp_all add: addAddressBalance_def Let_def)

lemma nodeQuery_sums:
  assumes "snd (nodeQuery coin node xs) = Inr balance"
  shows "current balance = sumBigNumbers (map (currentOf balance) xs)
   \<and> predicted balance = sumBigNumbers (map (coinsOf balance) xs)"
proof -
  obtain sent where "nodeQuery coin node xs = (sent, Inr balance)"
    using assms by (cases "nodeQuery coin node xs") simp
  then obtain m where b: "balance = fold (addAddressBalance m) xs newWalletBalance"
    by (rule nodeQuery_Inr)
  let ?at = "\<lambda>a. case m (Str a) of Some x \<Rightarrow> x | None \<Rightarrow> newAddressBalance"
  have maps: "map (currentOf balance) xs = map (\<lambda>a. current (?at a)) xs"
    "map (coinsOf balance) xs = map (\<lambda>a. predicted (?at a)) xs"
    by (simp_all add: currentOf_def coinsOf_def b addresses_fold_addAddressBalance)
  have c: "current balance = foldl plus (Num 0) (map (\<lambda>a. current (?at a)) xs)"
    and p: "predicted balance = foldl plus (Num 0) (map (\<lambda>a. predicted (?at a)) xs)"
    using fold_addAddressBalance_sums [of m xs newWalletBalance]
    by (simp_all add: b newWalletBalance_def)
  show ?thesis
    unfolding sumBigNumbers_def maps by (rule conjI [OF c p])
qed

lemma nodeBalance_sums:
  assumes "nodeBalance coin node wallet = Inr balance"
  shows "current balance =
      sumBigNumbers (map (\<lambda>a. currentOf balance (address a)) (addresses wallet))
   \<and> predicted balance =
      sumBigNumbers (map (\<lambda>a. coinsOf balance (address a)) (addresses wallet))"
  using nodeQuery_sums [of coin node "map address (addresses wallet)" balance] assms
  by (simp add: nodeBalance_def comp_def)

lemma allBalancesAnswered_iff:
  "allBalancesAnswered coin node wallets =
     (\<forall>w\<in>set wallets. \<exists>balance. nodeBalance coin node w = Inr balance)"
  by (auto simp: allBalancesAnswered_def list_all_iff isl_def) (metis sum.exhaust sum.disc(2))

lemma ex_nodeBalance:
  "nodeBalance exampleCoin exampleNode exampleWallet =
     Inr \<lparr>current = Num 8, predicted = Num 9,
          WalletBalance.addresses = [''A1'' \<mapsto> \<lparr>current = Num 5, predicted = Num 5\<rparr>,
                       ''A2'' \<mapsto> \<lparr>current = Num 3, predicted = Num 4\<rparr>]\<rparr>"
  by (simp add: nodeBalance_def exampleWallet_def ex_nodeQuery)

lemma ex_wellFormed: "publishedWellFormed exampleOperator"
  by (simp add: publishedWellFormed_def) (simp add: exampleStore_def)

lemma ex_coin: "currentCoin exampleOperator = exampleCoin"
  by (simp add: exampleOperator_def newEthBalanceAndOutputsOperator_def newBalanceMap_def)

lemma network_pass_result:
  "fst (refreshBalances node wallets False op) =
     (if allBalancesAnswered (currentCoin op) node wallets then Inr () else Inl RpcError)"
  using network_pass_success [of node wallets op] network_pass_failure [of node wallets op]
  by (cases "refreshBalances node wallets False op") auto

subsection \<open>The end of a cycle\<close>

lemma agreeBelow_publishedView:
  assumes "agreeBelow (nextRef (store op)) (store op) (store op')"
    and "walletsWithBalanceList op' = walletsWithBalanceList op"
    and "publishedAllocated op"
  shows "publishedView op' = publishedView op"
proof (cases "walletsWithBalanceList op")
  case None
  then show ?thesis using assms(2) by (simp add: publishedView_def)
next
  case (Some l)
  let ?n = "nextRef (store op)"
  have l: "l < ?n" and ws: "\<forall>w\<in>set (walletArrays (store op) l). w < ?n
      \<and> addresses (walletObjects (store op) w) < ?n
      \<and> (\<forall>a\<in>set (walletAddressRefs (store op) w). a < ?n)"
    using assms(3) Some by (simp_all add: publishedAllocated_def list_all_iff)
  have agree: "\<And>r. r < ?n \<Longrightarrow> walletArrays (store op') r = walletArrays (store op) r
      \<and> walletObjects (store op') r = walletObjects (store op) r
      \<and> addressArrays (store op') r = addressArrays (store op) r
      \<and> addressObjects (store op') r = addressObjects (store op) r"
    using assms(1) by (simp add: agreeBelow_def)
  have arr: "walletArrays (store op') l = walletArrays (store op) l"
    using agree l by simp
  have "walletView (store op') w = walletView (store op) w"
    if w: "w \<in> set (walletArrays (store op) l)" for w
  proof -
    have o: "walletObjects (store op') w = walletObjects (store op) w"
      using agree ws w by simp
    have a: "addressArrays (store op') (addresses (walletObjects (store op) w)) =
        addressArrays (store op) (addresses (walletObjects (store op) w))"
      using agree ws w by simp
    have refs: "walletAddressRefs (store op') w = walletAddressRefs (store op) w"
      by (simp add: walletAddressRefs_def o a)
    have "\<forall>r\<in>set (walletAddressRefs (store op) w).
        addressObjects (store op') r = addressObjects (store op) r"
      using agree ws w by simp
    then show ?thesis
      by (simp add: walletView_def o refs walletCoins_def addressCoins_def cong: map_cong)
  qed
  then show ?thesis
    using Some assms(2) by (simp add: publishedView_def listView_def arr cong: map_cong)
qed

lemma cycle_end_error:
  assumes "dataRefreshSubscription opn = Some k" "savedWalletsList opn = Some wallets"
    "k < length x"
  defines "op' \<equiv> closeSubscription k (refreshError (opn\<lparr>subscriptions := x\<rparr>))"
  shows "subscriptions op' = x[k := Closed] @ [Waiting (errorUpdatePeriod opn) False]"
    "dataRefreshSubscription op' = Some (length x)"
    "hadErrorRefreshingBalanceSubject op' = hadErrorRefreshingBalanceSubject opn @ [True]"
    "refreshingBalanceSubject op' = refreshingBalanceSubject opn @ [False]"
    "store op' = store opn"
    "walletsWithBalanceList op' = walletsWithBalanceList opn"
    "walletsWithBalanceSubject op' = walletsWithBalanceSubject opn"
    "savedBalanceData op' = savedBalanceData opn"
    "temporalSavedBalanceData op' = temporalSavedBalanceData opn"
    "hasPendingTransactionsSubject op' = hasPendingTransactionsSubject opn"
    "firstFullUpdateMadeSubject op' = firstFullUpdateMadeSubject opn"
    "lastBalancesUpdateTimeSubject op' = lastBalancesUpdateTimeSubject opn"
    "updatePeriod op' = updatePeriod opn"
    "errorUpdatePeriod op' = errorUpdatePeriod opn"
    "savedWalletsList op' = savedWalletsList opn"
    "currentCoin op' = currentCoin opn"
  using assms(1-3)
  by (simp_all add: op'_def closeSubscription_def refreshError_def
      startDataRefreshSubscription_def unsubscribe_def Let_def list_update_append)

lemma cycle_end_next:
  assumes "dataRefreshSubscription opn = Some k" "savedWalletsList opn = Some wallets"
    "k < length x"
  defines "op' \<equiv> closeSubscription k (refreshNext (opn\<lparr>subscriptions := x\<rparr>))"
  shows "subscriptions op' = x[k := Closed] @ [Waiting (updatePeriod opn) False]"
    "dataRefreshSubscription op' = Some (length x)"
    "hadErrorRefreshingBalanceSubject op' = hadErrorRefreshingBalanceSubject opn @ [False]"
    "refreshingBalanceSubject op' = refreshingBalanceSubject opn @ [False]"
    "store op' = store opn"
    "walletsWithBalanceList op' = walletsWithBalanceList opn"
    "walletsWithBalanceSubject op' = walletsWithBalanceSubject opn"
    "savedBalanceData op' = savedBalanceData opn"
    "temporalSavedBalanceData op' = temporalSavedBalanceData opn"
    "hasPendingTransactionsSubject op' = hasPendingTransactionsSubject opn"
    "firstFullUpdateMadeSubject op' = firstFullUpdateMadeSubject opn"
    "lastBalancesUpdateTimeSubject op' = lastBalancesUpdateTimeSubject opn"
    "updatePeriod op' = updatePeriod opn"
    "errorUpdatePeriod op' = errorUpdatePeriod opn"
    "savedWalletsList op' = savedWalletsList opn"
    "currentCoin op' = currentCoin opn"
  using assms(1-3)
  by (simp_all add: op'_def closeSubscription_def refreshNext_def
      startDataRefreshSubscription_def unsubscribe_def Let_def list_update_append)

lemma networkPassBegins_fields:
  defines "f \<equiv> networkPassBegins"
  shows "subscriptions (f node wallets u op) = subscriptions op"
    "dataRefreshSubscription (f node wallets u op) = dataRefreshSubscription op"
    "savedWalletsList (f node wallets u op) = savedWalletsList op"
    "currentCoin (f node wallets u op) = currentCoin op"
    "updatePeriod (f node wallets u op) = updatePeriod op"
    "errorUpdatePeriod (f node wallets u op) = errorUpdatePeriod op"
    "hadErrorRefreshingBalanceSubject (f node wallets u op) = hadErrorRefreshingBalanceSubject op"
    "firstFullUpdateMadeSubject (f node wallets u op) = firstFullUpdateMadeSubject op"
    "lastBalancesUpdateTimeSubject (f node wallets u op) = lastBalancesUpdateTimeSubject op"
    "savedBalanceData (f node wallets u op) = savedBalanceData op"
    "temporalSavedBalanceData (f node wallets u op) = temporalSavedBalanceData op"
    "refreshingBalanceSubject (f node wallets u op) = refreshingBalanceSubject op @ [True]"
proof -
  let ?opr = "op\<lparr>refreshingBalanceSubject := refreshingBalanceSubject op @ [True]\<rparr>"
  obtain rq oq where q: "refreshBalances node wallets True ?opr = (rq, oq)"
    by (cases "refreshBalances node wallets True ?opr")
  have oq: "oq = ?opr\<lparr>store := store oq, walletsWithBalanceList := walletsWithBalanceList oq,
               walletsWithBalanceSubject := walletsWithBalanceSubject oq,
               hasPendingTransactionsSubject := hasPendingTransactionsSubject oq\<rparr>"
    using quick_pass [OF q] by blast
  have fields: "subscriptions oq = subscriptions op"
    "dataRefreshSubscription oq = dataRefreshSubscription op"
    "savedWalletsList oq = savedWalletsList op"
    "currentCoin oq = currentCoin op"
    "updatePeriod oq = updatePeriod op"
    "errorUpdatePeriod oq = errorUpdatePeriod op"
    "hadErrorRefreshingBalanceSubject oq = hadErrorRefreshingBalanceSubject op"
    "firstFullUpdateMadeSubject oq = firstFullUpdateMadeSubject op"
    "lastBalancesUpdateTimeSubject oq = lastBalancesUpdateTimeSubject op"
    "savedBalanceData oq = savedBalanceData op"
    "temporalSavedBalanceData oq = temporalSavedBalanceData op"
    "refreshingBalanceSubject oq = refreshingBalanceSubject op @ [True]"
    by (subst oq, simp)+
  have f: "f node wallets u op = (if u then oq else ?opr)"
    by (simp add: f_def networkPassBegins_def Let_def q)
  show "subscriptions (f node wallets u op) = subscriptions op"
    "dataRefreshSubscription (f node wallets u op) = dataRefreshSubscription op"
    "savedWalletsList (f node wallets u op) = savedWalletsList op"
    "currentCoin (f node wallets u op) = currentCoin op"
    "updatePeriod (f node wallets u op) = updatePeriod op"
    "errorUpdatePeriod (f node wallets u op) = errorUpdatePeriod op"
    "hadErrorRefreshingBalanceSubject (f node wallets u op) = hadErrorRefreshingBalanceSubject op"
    "firstFullUpdateMadeSubject (f node wallets u op) = firstFullUpdateMadeSubject op"
    "lastBalancesUpdateTimeSubject (f node wallets u op) = lastBalancesUpdateTimeSubject op"
    "savedBalanceData (f node wallets u op) = savedBalanceData op"
    "temporalSavedBalanceData (f node wallets u op) = temporalSavedBalanceData op"
    "refreshingBalanceSubject (f node wallets u op) = refreshingBalanceSubject op @ [True]"
    by (simp_all add: f fields)
qed

subsection \<open>The example of a cycle\<close>

lemma ex_waiting:
  "exampleWaiting =
     exampleOperator\<lparr>savedWalletsList := Some [exampleWallet],
       subscriptions := [Waiting 0 False], dataRefreshSubscription := Some 0\<rparr>"
  by (simp add: exampleWaiting_def refreshBalance_def startDataRefreshSubscription_def
      unsubscribe_def Let_def exampleOperator_def newEthBalanceAndOutputsOperator_def
      newBalanceMap_def)

lemma ex_waiting_fields [simp]:
  "subscriptions exampleWaiting = [Waiting 0 False]"
  "dataRefreshSubscription exampleWaiting = Some 0"
  "savedWalletsList exampleWaiting = Some [exampleWallet]"
  "store exampleWaiting = exampleStore"
  "walletsWithBalanceList exampleWaiting = Some 6"
  "walletsWithBalanceSubject exampleWaiting = [Some 6]"
  "currentCoin exampleWaiting = exampleCoin"
  "hadErrorRefreshingBalanceSubject exampleWaiting = [False]"
  "firstFullUpdateMadeSubject exampleWaiting = [False]"
  "updatePeriod exampleWaiting = 10000"
  "errorUpdatePeriod exampleWaiting = 2000"
  "savedBalanceData exampleWaiting = 0"
  by (simp_all add: ex_waiting ex_coin)
    (simp_all add: exampleOperator_def newEthBalanceAndOutputsOperator_def newBalanceMap_def
      exampleCoin_def emptyStore_def)

lemma ex_failing: "\<not> allBalancesAnswered exampleCoin exampleFailingNode [exampleWallet]"
proof -
  have b: "exampleFailingNode (blockNumberRequest exampleCoin) = Inr ''0xa''"
    by (simp add: ex_requests exampleFailingNode_def exampleNode_def)
  have h: "toNumber (hexToBigNumber ''0xa'') = Num 10"
    by (rule ex_height)
  have "snd (fetchBalance exampleCoin exampleFailingNode (Num 10) (Str ''A1'')) = Inl RpcError"
    by (simp add: fetchBalance_def ex_requests exampleFailingNode_def exampleNode_def)
  then have "\<not> allAnswered exampleCoin exampleFailingNode (Num 10) [''A1'', ''A2'']"
    by (simp add: allAnswered_def)
  then have "snd (recursivelyGetBalances exampleCoin exampleFailingNode [''A1'', ''A2''] (Num 10)
      Map.empty) = Inl RpcError"
    by (simp add: recursivelyGetBalances_result)
  then have "snd (nodeQuery exampleCoin exampleFailingNode [''A1'', ''A2'']) = Inl RpcError"
    by (auto simp: nodeQuery_def b h Let_def split: prod.splits sum.splits)
  then show ?thesis
    by (simp add: allBalancesAnswered_def nodeBalance_def exampleWallet_def)
qed

lemma ex_answered: "allBalancesAnswered exampleCoin exampleNode [exampleWallet]"
  by (simp add: allBalancesAnswered_def ex_nodeBalance)

lemma ex_allocated:
  "publishedAllocated (exampleWaiting\<lparr>refreshingBalanceSubject := x\<rparr>)"
  by (simp add: publishedAllocated_def) (simp add: exampleStore_def exampleWalletObject_def)

subsection \<open>The steps of the operator\<close>

lemma startDataRefreshSubscription_eq:
  "startDataRefreshSubscription d u op =
     op\<lparr>subscriptions := subscriptions (startDataRefreshSubscription d u op),
        dataRefreshSubscription := dataRefreshSubscription (startDataRefreshSubscription d u op)\<rparr>"
  by (cases op) (simp add: startDataRefreshSubscription_def unsubscribe_def Let_def
      split: option.splits)

lemma scheduler_fields:
  fixes op :: EthBalanceAndOutputsOperator
  assumes "op' = op\<lparr>subscriptions := a, dataRefreshSubscription := b\<rparr>"
  shows "store op' = store op"
    "walletsWithBalanceList op' = walletsWithBalanceList op"
    "walletsWithBalanceSubject op' = walletsWithBalanceSubject op"
    "lastBalancesUpdateTimeSubject op' = lastBalancesUpdateTimeSubject op"
    "hasPendingTransactionsSubject op' = hasPendingTransactionsSubject op"
    "firstFullUpdateMadeSubject op' = firstFullUpdateMadeSubject op"
    "hadErrorRefreshingBalanceSubject op' = hadErrorRefreshingBalanceSubject op"
    "refreshingBalanceSubject op' = refreshingBalanceSubject op"
    "updatePeriod op' = updatePeriod op"
    "errorUpdatePeriod op' = errorUpdatePeriod op"
    "savedBalanceData op' = savedBalanceData op"
    "temporalSavedBalanceData op' = temporalSavedBalanceData op"
    "savedWalletsList op' = savedWalletsList op"
    "currentCoin op' = currentCoin op"
  by (simp_all add: assms)

lemmas startDataRefreshSubscription_fields =
  scheduler_fields [OF startDataRefreshSubscription_eq]

lemma refreshError_fields:
  "store (refreshError op) = store op"
  "walletsWithBalanceList (refreshError op) = walletsWithBalanceList op"
  "walletsWithBalanceSubject (refreshError op) = walletsWithBalanceSubject op"
  "lastBalancesUpdateTimeSubject (refreshError op) = lastBalancesUpdateTimeSubject op"
  "hasPendingTransactionsSubject (refreshError op) = hasPendingTransactionsSubject op"
  "firstFullUpdateMadeSubject (refreshError op) = firstFullUpdateMadeSubject op"
  "hadErrorRefreshingBalanceSubject (refreshError op) = hadErrorRefreshingBalanceSubject op @ [True]"
  "refreshingBalanceSubject (refreshError op) = refreshingBalanceSubject op @ [False]"
  "updatePeriod (refreshError op) = updatePeriod op"
  "errorUpdatePeriod (refreshError op) = errorUpdatePeriod op"
  "savedBalanceData (refreshError op) = savedBalanceData op"
  "temporalSavedBalanceData (refreshError op) = temporalSavedBalanceData op"
  "savedWalletsList (refreshError op) = savedWalletsList op"
  "currentCoin (refreshError op) = currentCoin op"
  by (simp_all add: refreshError_def startDataRefreshSubscription_fields)

lemma refreshNext_fields:
  "store (refreshNext op) = store op"
  "walletsWithBalanceList (refreshNext op) = walletsWithBalanceList op"
  "walletsWithBalanceSubject (refreshNext op) = walletsWithBalanceSubject op"
  "lastBalancesUpdateTimeSubject (refreshNext op) = lastBalancesUpdateTimeSubject op"
  "hasPendingTransactionsSubject (refreshNext op) = hasPendingTransactionsSubject op"
  "firstFullUpdateMadeSubject (refreshNext op) = firstFullUpdateMadeSubject op"
  "hadErrorRefreshingBalanceSubject (refreshNext op) = hadErrorRefreshingBalanceSubject op @ [False]"
  "refreshingBalanceSubject (refreshNext op) = refreshingBalanceSubject op @ [False]"
  "updatePeriod (refreshNext op) = updatePeriod op"
  "errorUpdatePeriod (refreshNext op) = errorUpdatePeriod op"
  "savedBalanceData (refreshNext op) = savedBalanceData op"
  "temporalSavedBalanceData (refreshNext op) = temporalSavedBalanceData op"
  "savedWalletsList (refreshNext op) = savedWalletsList op"
  "currentCoin (refreshNext op) = currentCoin op"
  by (simp_all add: refreshNext_def startDataRefreshSubscription_fields)

lemma closeSubscription_fields:
  "store (closeSubscription k op) = store op"
  "walletsWithBalanceList (closeSubscription k op) = walletsWithBalanceList op"
  "walletsWithBalanceSubject (closeSubscription k op) = walletsWithBalanceSubject op"
  "lastBalancesUpdateTimeSubject (closeSubscription k op) = lastBalancesUpdateTimeSubject op"
  "hasPendingTransactionsSubject (closeSubscription k op) = hasPendingTransactionsSubject op"
  "firstFullUpdateMadeSubject (closeSubscription k op) = firstFullUpdateMadeSubject op"
  "hadErrorRefreshingBalanceSubject (closeSubscription k op) = hadErrorRefreshingBalanceSubject op"
  "refreshingBalanceSubject (closeSubscription k op) = refreshingBalanceSubject op"
  "updatePeriod (closeSubscription k op) = updatePeriod op"
  "errorUpdatePeriod (closeSubscription k op) = errorUpdatePeriod op"
  "savedBalanceData (closeSubscription k op) = savedBalanceData op"
  "temporalSavedBalanceData (closeSubscription k op) = temporalSavedBalanceData op"
  "savedWalletsList (closeSubscription k op) = savedWalletsList op"
  "currentCoin (closeSubscription k op) = currentCoin op"
  "dataRefreshSubscription (closeSubscription k op) = dataRefreshSubscription op"
  "subscriptions (closeSubscription k op) = (subscriptions op)[k := Closed]"
  by (simp_all add: closeSubscription_def)

text \<open>The end of a network pass, in any operator.\<close>

lemma refreshBalancesEnd_effect:
  assumes run: "refreshBalancesEnd node wallets tw False op = (r, op')"
  shows "subscriptions op' = subscriptions op
   \<and> dataRefreshSubscription op' = dataRefreshSubscription op
   \<and> savedWalletsList op' = savedWalletsList op
   \<and> updatePeriod op' = updatePeriod op
   \<and> errorUpdatePeriod op' = errorUpdatePeriod op
   \<and> currentCoin op' = currentCoin op
   \<and> hadErrorRefreshingBalanceSubject op' = hadErrorRefreshingBalanceSubject op
   \<and> refreshingBalanceSubject op' = refreshingBalanceSubject op
   \<and> temporalSavedBalanceData op' = temporalSavedBalanceData op
   \<and> nextRef (store op') = nextRef (store op)
   \<and> (\<forall>m. m \<noteq> temporalSavedBalanceData op \<longrightarrow>
         balanceMaps (store op') m = balanceMaps (store op) m)
   \<and> (isl r \<longrightarrow> savedBalanceData op' = savedBalanceData op
         \<and> firstFullUpdateMadeSubject op' = firstFullUpdateMadeSubject op
         \<and> lastBalancesUpdateTimeSubject op' = lastBalancesUpdateTimeSubject op
         \<and> walletsWithBalanceList op' = walletsWithBalanceList op
         \<and> walletsWithBalanceSubject op' = walletsWithBalanceSubject op
         \<and> hasPendingTransactionsSubject op' = hasPendingTransactionsSubject op)
   \<and> (\<not> isl r \<longrightarrow> savedBalanceData op' = temporalSavedBalanceData op
         \<and> last (firstFullUpdateMadeSubject op')
         \<and> firstFullUpdateMadeSubject op' =
             (if last (firstFullUpdateMadeSubject op) then firstFullUpdateMadeSubject op
              else firstFullUpdateMadeSubject op @ [True])
         \<and> lastBalancesUpdateTimeSubject op' = Suc (lastBalancesUpdateTimeSubject op))"
proof -
  let ?q = "\<lambda>op w. snd (nodeQuery (currentCoin op) node (walletAddresses (store op) w))"
  let ?f = "\<lambda>(b :: WalletBalance) (op :: EthBalanceAndOutputsOperator).
      \<not> isEqualTo (current b) (predicted b)"
  obtain r2 op2 where proc: "procedure node wallets tw False op op = (r2, op2)"
    by (cases "procedure node wallets tw False op op")
  have P: "op2 = op\<lparr>store := store op2\<rparr> \<and> nextRef (store op2) = nextRef (store op)
      \<and> (\<forall>m. m \<noteq> temporalSavedBalanceData op \<longrightarrow>
            balanceMaps (store op2) m = balanceMaps (store op) m)"
  proof (cases "wallets = []")
    case True
    then have "op2 = op" using proc by (simp add: procedure_def)
    then show ?thesis by simp
  next
    case False
    then have "forkJoin (map (balanceObservable ?q ?f) (walletArrays (store op) tw)) op = (r2, op2)"
      using proc by (simp add: procedure_def retrieveWalletBalance_network)
    from forkJoin_frame [OF this] show ?thesis
      by (simp add: coinsOnly_def)
  qed
  then have op2: "op2 = op\<lparr>store := store op2\<rparr>" by blast
  have f2: "subscriptions op2 = subscriptions op"
    "dataRefreshSubscription op2 = dataRefreshSubscription op"
    "savedWalletsList op2 = savedWalletsList op"
    "updatePeriod op2 = updatePeriod op"
    "errorUpdatePeriod op2 = errorUpdatePeriod op"
    "currentCoin op2 = currentCoin op"
    "hadErrorRefreshingBalanceSubject op2 = hadErrorRefreshingBalanceSubject op"
    "refreshingBalanceSubject op2 = refreshingBalanceSubject op"
    "temporalSavedBalanceData op2 = temporalSavedBalanceData op"
    "savedBalanceData op2 = savedBalanceData op"
    "firstFullUpdateMadeSubject op2 = firstFullUpdateMadeSubject op"
    "lastBalancesUpdateTimeSubject op2 = lastBalancesUpdateTimeSubject op"
    "walletsWithBalanceList op2 = walletsWithBalanceList op"
    "walletsWithBalanceSubject op2 = walletsWithBalanceSubject op"
    "hasPendingTransactionsSubject op2 = hasPendingTransactionsSubject op"
    by (subst op2, simp)+
  show ?thesis
  proof (cases r2)
    case (Inl e)
    then have "r = Inl e" "op' = op2"
      using run proc by (simp_all add: refreshBalancesEnd_def)
    then show ?thesis
      using P by (simp add: f2)
  next
    case (Inr flags)
    then have r: "r = Inr ()" and op': "op' = refreshBalancesTap tw False flags op2"
      using run proc by (simp_all add: refreshBalancesEnd_def)
    define opa where "opa = op2\<lparr>hasPendingTransactionsSubject :=
        hasPendingTransactionsSubject op2 @ [list_ex (\<lambda>value. value) flags],
      lastBalancesUpdateTimeSubject := Suc (lastBalancesUpdateTimeSubject op2)\<rparr>"
    define op3 where "op3 = updateWalletsWithBalanceList tw False opa"
    have tap: "op' = (let op4 = op3\<lparr>savedBalanceData := temporalSavedBalanceData op3\<rparr>
        in if \<not> last (firstFullUpdateMadeSubject op4)
           then op4\<lparr>firstFullUpdateMadeSubject := firstFullUpdateMadeSubject op4 @ [True]\<rparr>
           else op4)"
      unfolding op' refreshBalancesTap_def Let_def op3_def opa_def by simp
    note F = updateWalletsWithBalanceList_frame [OF op3_def]
    have e3: "op3 = opa\<lparr>store := store op3, walletsWithBalanceList := walletsWithBalanceList op3,
        walletsWithBalanceSubject := walletsWithBalanceSubject op3\<rparr>"
      using F by blast
    have f3: "subscriptions op3 = subscriptions op"
      "dataRefreshSubscription op3 = dataRefreshSubscription op"
      "savedWalletsList op3 = savedWalletsList op"
      "updatePeriod op3 = updatePeriod op"
      "errorUpdatePeriod op3 = errorUpdatePeriod op"
      "currentCoin op3 = currentCoin op"
      "hadErrorRefreshingBalanceSubject op3 = hadErrorRefreshingBalanceSubject op"
      "refreshingBalanceSubject op3 = refreshingBalanceSubject op"
      "temporalSavedBalanceData op3 = temporalSavedBalanceData op"
      "firstFullUpdateMadeSubject op3 = firstFullUpdateMadeSubject op"
      "lastBalancesUpdateTimeSubject op3 = Suc (lastBalancesUpdateTimeSubject op)"
      by (subst e3, simp add: opa_def f2)+
    have s3: "nextRef (store op3) = nextRef (store op)"
      "balanceMaps (store op3) = balanceMaps (store op2)"
      using F P by (simp_all add: opa_def)
    have store': "store op' = store op3"
      by (simp add: tap Let_def)
    have a: "nextRef (store op') = nextRef (store op)
        \<and> (\<forall>m. m \<noteq> temporalSavedBalanceData op \<longrightarrow>
              balanceMaps (store op') m = balanceMaps (store op) m)"
      using P by (simp add: store' s3)
    have b: "subscriptions op' = subscriptions op"
      "dataRefreshSubscription op' = dataRefreshSubscription op"
      "savedWalletsList op' = savedWalletsList op"
      "updatePeriod op' = updatePeriod op"
      "errorUpdatePeriod op' = errorUpdatePeriod op"
      "currentCoin op' = currentCoin op"
      "hadErrorRefreshingBalanceSubject op' = hadErrorRefreshingBalanceSubject op"
      "refreshingBalanceSubject op' = refreshingBalanceSubject op"
      "temporalSavedBalanceData op' = temporalSavedBalanceData op"
      "savedBalanceData op' = temporalSavedBalanceData op"
      "lastBalancesUpdateTimeSubject op' = Suc (lastBalancesUpdateTimeSubject op)"
      "firstFullUpdateMadeSubject op' =
         (if last (firstFullUpdateMadeSubject op) then firstFullUpdateMadeSubject op
          else firstFullUpdateMadeSubject op @ [True])"
      by (simp_all add: tap Let_def f3)
    show ?thesis
      using a by (simp add: b r)
  qed
qed

subsection \<open>The two events of a subscription\<close>

lemma passEnds_noop:
  "\<not> (k < length (subscriptions op) \<and> (\<exists>wallets tw. subscriptions op ! k = Running wallets tw)) \<Longrightarrow>
   passEnds node k op = op"
  by (auto simp: passEnds_def split: Subscription.splits)

lemma passEnds_eq:
  assumes "k < length (subscriptions op)" "subscriptions op ! k = Running wallets tw"
    and "refreshBalancesEnd node wallets tw False op = (r, opn)"
  shows "passEnds node k op =
     closeSubscription k ((if isl r then refreshError else refreshNext) opn)"
  using assms by (cases r) (simp_all add: passEnds_def)

lemma timerFires_noop:
  "\<not> (k < length (subscriptions op) \<and> (\<exists>d u. subscriptions op ! k = Waiting d u)) \<Longrightarrow>
   timerFires node k op = op"
  by (auto simp: timerFires_def split: Subscription.splits)

lemma timerFires_None:
  assumes "k < length (subscriptions op)" "subscriptions op ! k = Waiting d u"
    and "savedWalletsList op = None"
  shows "timerFires node k op =
     closeSubscription k
       (refreshError (op\<lparr>refreshingBalanceSubject := refreshingBalanceSubject op @ [True]\<rparr>))"
  using assms by (simp add: timerFires_def)

lemma timerFires_eq:
  assumes k: "k < length (subscriptions op)" and waiting: "subscriptions op ! k = Waiting d u"
    and saved: "savedWalletsList op = Some wallets"
    and bgn: "refreshBalancesBegin wallets False (networkPassBegins node wallets u op) = (tw, op3)"
  shows "timerFires node k op =
     (if wallets = []
      then passEnds node k (op3\<lparr>subscriptions := (subscriptions op)[k := Running wallets tw]\<rparr>)
      else op3\<lparr>subscriptions := (subscriptions op)[k := Running wallets tw]\<rparr>)"
    and "subscriptions op3 = subscriptions op"
proof -
  let ?opr = "op\<lparr>refreshingBalanceSubject := refreshingBalanceSubject op @ [True]\<rparr>"
  obtain rq oq where q: "refreshBalances node wallets True ?opr = (rq, oq)"
    by (cases "refreshBalances node wallets True ?opr")
  have rq: "rq = Inr ()" using quick_pass [OF q] by simp
  have began: "networkPassBegins node wallets u op = (if u then oq else ?opr)"
    by (simp add: networkPassBegins_def Let_def q)
  show subs3: "subscriptions op3 = subscriptions op"
    using refreshBalancesBegin_subscriptions [of wallets False "networkPassBegins node wallets u op"]
      networkPassBegins_fields(1) [of node wallets u op] bgn by simp
  show "timerFires node k op =
     (if wallets = []
      then passEnds node k (op3\<lparr>subscriptions := (subscriptions op)[k := Running wallets tw]\<rparr>)
      else op3\<lparr>subscriptions := (subscriptions op)[k := Running wallets tw]\<rparr>)"
  proof (cases u)
    case True
    then show ?thesis
      using k waiting saved q rq bgn subs3 began
      by (auto simp: timerFires_def Let_def)
  next
    case False
    then show ?thesis
      using k waiting saved bgn subs3 began
      by (auto simp: timerFires_def Let_def)
  qed
qed

subsection \<open>At most one subscription is open\<close>

lemma oneChain_iff:
  "oneChain op =
     ((\<forall>k. dataRefreshSubscription op = Some k \<longrightarrow> k < length (subscriptions op))
      \<and> (\<forall>j<length (subscriptions op).
            subscriptions op ! j = Closed \<or> dataRefreshSubscription op = Some j))"
  by (auto simp: oneChain_def list_all_iff split: option.splits)

lemma oneChain_fields:
  "subscriptions op' = subscriptions op \<Longrightarrow>
   dataRefreshSubscription op' = dataRefreshSubscription op \<Longrightarrow> oneChain op' = oneChain op"
  by (simp add: oneChain_iff)

lemma oneChain_start:
  assumes "oneChain op"
  shows "oneChain (startDataRefreshSubscription d u op)"
    and "\<forall>j<length (subscriptions op).
      subscriptions (startDataRefreshSubscription d u op) ! j = Closed"
    and "length (subscriptions op) \<le> length (subscriptions (startDataRefreshSubscription d u op))"
  using assms
  by (auto simp: oneChain_iff startDataRefreshSubscription_def unsubscribe_def Let_def
      nth_append nth_list_update split: option.splits)

lemma oneChain_close: "oneChain op \<Longrightarrow> oneChain (closeSubscription k op)"
  by (cases "k < length (subscriptions op)")
    (auto simp: oneChain_iff closeSubscription_def nth_list_update)

lemma oneChain_passEnds:
  assumes "oneChain op"
  shows "oneChain (passEnds node k op)"
proof (cases "k < length (subscriptions op) \<and> (\<exists>wallets tw. subscriptions op ! k = Running wallets tw)")
  case False
  then show ?thesis using assms by (simp add: passEnds_noop)
next
  case True
  then obtain wallets tw where k: "k < length (subscriptions op)"
    and running: "subscriptions op ! k = Running wallets tw" by blast
  obtain r opn where e: "refreshBalancesEnd node wallets tw False op = (r, opn)"
    by (cases "refreshBalancesEnd node wallets tw False op")
  have "oneChain opn"
    using refreshBalancesEnd_effect [OF e] assms oneChain_fields [of opn op] by simp
  then have "oneChain ((if isl r then refreshError else refreshNext) opn)"
    using oneChain_start(1) [of "opn\<lparr>hadErrorRefreshingBalanceSubject := _,
        refreshingBalanceSubject := _\<rparr>"]
    by (simp add: refreshError_def refreshNext_def oneChain_iff)
  then show ?thesis
    by (simp add: passEnds_eq [OF k running e] oneChain_close)
qed

lemma oneChain_timerFires:
  assumes "oneChain op"
  shows "oneChain (timerFires node k op)"
proof (cases "k < length (subscriptions op) \<and> (\<exists>d u. subscriptions op ! k = Waiting d u)")
  case False
  then show ?thesis using assms by (simp add: timerFires_noop)
next
  case True
  then obtain d u where k: "k < length (subscriptions op)"
    and waiting: "subscriptions op ! k = Waiting d u" by blast
  have live: "dataRefreshSubscription op = Some k"
    using assms k waiting by (auto simp: oneChain_iff)
  show ?thesis
  proof (cases "savedWalletsList op")
    case None
    have "oneChain (op\<lparr>refreshingBalanceSubject := refreshingBalanceSubject op @ [True],
        hadErrorRefreshingBalanceSubject := x, refreshingBalanceSubject := y\<rparr>)" for x y
      using assms by (simp add: oneChain_iff)
    then show ?thesis
      by (simp add: timerFires_None [OF k waiting None] oneChain_close refreshError_def
          oneChain_start(1))
  next
    case (Some wallets)
    obtain tw op3 where bgn:
      "refreshBalancesBegin wallets False (networkPassBegins node wallets u op) = (tw, op3)"
      by (cases "refreshBalancesBegin wallets False (networkPassBegins node wallets u op)")
    note T = timerFires_eq [OF k waiting Some bgn]
    let ?op4 = "op3\<lparr>subscriptions := (subscriptions op)[k := Running wallets tw]\<rparr>"
    have "dataRefreshSubscription op3 = dataRefreshSubscription op"
      using bgn networkPassBegins_fields(2) [of node wallets u op]
      by (auto simp: refreshBalancesBegin_def case_prod_beta)
    then have c4: "oneChain ?op4"
      using assms live k by (auto simp: oneChain_iff nth_list_update)
    have pc4: "oneChain (passEnds node k ?op4)"
      by (rule oneChain_passEnds [OF c4])
    have "timerFires node k op = passEnds node k ?op4 \<or> timerFires node k op = ?op4"
      by (simp add: T(1))
    then show ?thesis
      using c4 pc4 by (elim disjE) simp_all
  qed
qed

lemma oneChain_step: "oneChain op \<Longrightarrow> oneChain (step e op)"
proof (cases e)
  case RefreshBalance
  assume "oneChain op"
  then show ?thesis
    by (simp add: RefreshBalance refreshBalance_def oneChain_start(1))
next
  case (WalletsChanged wallets)
  assume "oneChain op"
  then have "oneChain (op\<lparr>savedWalletsList := Some wallets\<rparr>)"
    by (simp add: oneChain_iff)
  then show ?thesis
    by (simp add: WalletsChanged walletsChanged_def oneChain_start(1))
next
  case (TimerFires node k)
  assume "oneChain op"
  then show ?thesis by (simp add: TimerFires oneChain_timerFires)
next
  case (PassEnds node k)
  assume "oneChain op"
  then show ?thesis by (simp add: PassEnds oneChain_passEnds)
qed

lemma run_snoc: "run (es @ [e]) op = step e (run es op)"
  by (simp add: run_def)

lemma oneChain_run: "oneChain op \<Longrightarrow> oneChain (run es op)"
  by (induction es rule: rev_induct) (simp_all add: run_snoc oneChain_step, simp add: run_def)

lemma oneChain_new: "oneChain (newEthBalanceAndOutputsOperator coin)"
  by (simp add: oneChain_def newEthBalanceAndOutputsOperator_def newBalanceMap_def)

subsection \<open>A closed subscription\<close>

lemma nth_update_same:
  "k < length xs \<Longrightarrow> xs ! k = x \<Longrightarrow> xs[j := x] ! k = x"
  by (cases "j = k") simp_all

lemma closed_start:
  assumes "k < length (subscriptions op)" "subscriptions op ! k = Closed"
  shows "k < length (subscriptions (startDataRefreshSubscription d u op))
   \<and> subscriptions (startDataRefreshSubscription d u op) ! k = Closed"
  using assms
  by (auto simp: startDataRefreshSubscription_def unsubscribe_def Let_def nth_append
      nth_update_same split: option.splits)

lemma closed_close:
  assumes "k < length (subscriptions op)" "subscriptions op ! k = Closed"
  shows "k < length (subscriptions (closeSubscription j op))
   \<and> subscriptions (closeSubscription j op) ! k = Closed"
  using assms by (simp add: closeSubscription_def nth_update_same)

lemma closed_passEnds:
  assumes k: "k < length (subscriptions op)" and closed: "subscriptions op ! k = Closed"
  shows "k < length (subscriptions (passEnds node j op))
   \<and> subscriptions (passEnds node j op) ! k = Closed"
proof (cases "j < length (subscriptions op) \<and> (\<exists>wallets tw. subscriptions op ! j = Running wallets tw)")
  case False
  then show ?thesis using assms by (simp add: passEnds_noop)
next
  case True
  then obtain wallets tw where j: "j < length (subscriptions op)"
    and running: "subscriptions op ! j = Running wallets tw" by blast
  obtain r opn where e: "refreshBalancesEnd node wallets tw False op = (r, opn)"
    by (cases "refreshBalancesEnd node wallets tw False op")
  have subs: "subscriptions opn = subscriptions op"
    using refreshBalancesEnd_effect [OF e] by simp
  have "k < length (subscriptions ((if isl r then refreshError else refreshNext) opn))
   \<and> subscriptions ((if isl r then refreshError else refreshNext) opn) ! k = Closed"
    using closed_start [of k "opn\<lparr>hadErrorRefreshingBalanceSubject := _,
        refreshingBalanceSubject := _\<rparr>"] k closed
    by (simp add: refreshError_def refreshNext_def subs)
  then show ?thesis
    by (simp add: passEnds_eq [OF j running e] closed_close)
qed

lemma closed_timerFires:
  assumes k: "k < length (subscriptions op)" and closed: "subscriptions op ! k = Closed"
  shows "k < length (subscriptions (timerFires node j op))
   \<and> subscriptions (timerFires node j op) ! k = Closed"
proof (cases "j < length (subscriptions op) \<and> (\<exists>d u. subscriptions op ! j = Waiting d u)")
  case False
  then show ?thesis using assms by (simp add: timerFires_noop)
next
  case True
  then obtain d u where j: "j < length (subscriptions op)"
    and waiting: "subscriptions op ! j = Waiting d u" by blast
  have jk: "j \<noteq> k" using waiting closed by auto
  show ?thesis
  proof (cases "savedWalletsList op")
    case None
    have "k < length (subscriptions (refreshError
        (op\<lparr>refreshingBalanceSubject := refreshingBalanceSubject op @ [True]\<rparr>)))
      \<and> subscriptions (refreshError
        (op\<lparr>refreshingBalanceSubject := refreshingBalanceSubject op @ [True]\<rparr>)) ! k = Closed"
      using closed_start [of k "op\<lparr>refreshingBalanceSubject := _,
        hadErrorRefreshingBalanceSubject := _, refreshingBalanceSubject := _\<rparr>"] k closed
      by (simp add: refreshError_def)
    then show ?thesis
      by (simp add: timerFires_None [OF j waiting None] closed_close)
  next
    case (Some wallets)
    obtain tw op3 where bgn:
      "refreshBalancesBegin wallets False (networkPassBegins node wallets u op) = (tw, op3)"
      by (cases "refreshBalancesBegin wallets False (networkPassBegins node wallets u op)")
    note T = timerFires_eq [OF j waiting Some bgn]
    let ?op4 = "op3\<lparr>subscriptions := (subscriptions op)[j := Running wallets tw]\<rparr>"
    have c4: "k < length (subscriptions ?op4) \<and> subscriptions ?op4 ! k = Closed"
      using k closed jk by simp
    then have pc4: "k < length (subscriptions (passEnds node j ?op4))
        \<and> subscriptions (passEnds node j ?op4) ! k = Closed"
      using closed_passEnds [of k ?op4 node j] by blast
    have "timerFires node j op = passEnds node j ?op4 \<or> timerFires node j op = ?op4"
      by (simp add: T(1))
    then show ?thesis
      using c4 pc4 by (elim disjE) simp_all
  qed
qed

lemma closed_step:
  assumes "k < length (subscriptions op)" "subscriptions op ! k = Closed"
  shows "k < length (subscriptions (step e op)) \<and> subscriptions (step e op) ! k = Closed"
proof (cases e)
  case RefreshBalance
  then show ?thesis using assms by (simp add: refreshBalance_def closed_start)
next
  case (WalletsChanged wallets)
  then show ?thesis
    using closed_start [of k "op\<lparr>savedWalletsList := Some wallets\<rparr>"] assms
    by (simp add: walletsChanged_def)
next
  case (TimerFires node j)
  then show ?thesis using assms by (simp add: closed_timerFires)
next
  case (PassEnds node j)
  then show ?thesis using assms by (simp add: closed_passEnds)
qed

lemma closed_run:
  assumes "k < length (subscriptions op)" "subscriptions op ! k = Closed"
  shows "k < length (subscriptions (run es op)) \<and> subscriptions (run es op) ! k = Closed"
proof (induction es rule: rev_induct)
  case Nil
  show ?case using assms by (simp add: run_def)
next
  case (snoc e es)
  then show ?case by (simp add: run_snoc closed_step)
qed

lemma closed_noop:
  assumes "k < length (subscriptions op)" "subscriptions op ! k = Closed" "onChain k e"
  shows "step e op = op"
  using assms by (cases e) (simp_all add: timerFires_noop passEnds_noop)

lemma closed_noops:
  assumes "k < length (subscriptions op)" "subscriptions op ! k = Closed" "list_all (onChain k) es"
  shows "run es op = op"
  using assms(3)
proof (induction es rule: rev_induct)
  case Nil
  show ?case by (simp add: run_def)
next
  case (snoc e es)
  then show ?case
    using assms(1,2) by (simp add: run_snoc closed_noop)
qed

lemma run_append: "run (es @ es') op = run es' (run es op)"
  by (simp add: run_def)

lemma run_single: "run [e] op = step e op"
  by (simp add: run_def)

subsection \<open>The network passes that a cycle completes\<close>

lemma cycle_completes:
  assumes k: "k < length (subscriptions op)"
    and waiting: "subscriptions op ! k = Waiting d u"
    and chain: "dataRefreshSubscription op = Some k"
    and saved: "savedWalletsList op = Some wallets"
  shows "lastBalancesUpdateTimeSubject (passEnds node k (timerFires node k op)) =
     (if allBalancesAnswered (currentCoin op) node wallets
      then Suc (lastBalancesUpdateTimeSubject op) else lastBalancesUpdateTimeSubject op)"
proof -
  define began where "began = networkPassBegins node wallets u op"
  note B = networkPassBegins_fields [of node wallets u op, folded began_def]
  obtain r opn where run: "refreshBalances node wallets False began = (r, opn)"
    by (cases "refreshBalances node wallets False began")
  have q: "began = (if u
      then snd (refreshBalances node wallets True
                  (op\<lparr>refreshingBalanceSubject := refreshingBalanceSubject op @ [True]\<rparr>))
      else op\<lparr>refreshingBalanceSubject := refreshingBalanceSubject op @ [True]\<rparr>)"
    by (simp add: began_def networkPassBegins_def Let_def)
  obtain tw where fin: "passEnds node k (timerFires node k op) = closeSubscription k
       ((case r of Inl e \<Rightarrow> refreshError | Inr v \<Rightarrow> refreshNext)
          (opn\<lparr>subscriptions := (subscriptions op)[k := Running wallets tw]\<rparr>))"
    using cycle [OF k waiting saved q run] by blast
  show ?thesis
  proof (cases "allBalancesAnswered (currentCoin op) node wallets")
    case False
    then have failed: "\<not> allBalancesAnswered (currentCoin began) node wallets"
      by (simp add: B)
    note N = network_pass_failure [OF run failed]
    have r: "r = Inl RpcError"
      and opn: "opn = began\<lparr>store := store opn,
          temporalSavedBalanceData := temporalSavedBalanceData opn\<rparr>"
      using N by blast+
    have "lastBalancesUpdateTimeSubject opn = lastBalancesUpdateTimeSubject op"
      by (subst opn) (simp add: B)
    then show ?thesis
      using False by (simp add: fin r closeSubscription_fields refreshError_fields)
  next
    case True
    then have answered: "allBalancesAnswered (currentCoin began) node wallets"
      by (simp add: B)
    note S = network_pass_success [OF run answered]
    have "r = Inr ()"
      "lastBalancesUpdateTimeSubject opn = Suc (lastBalancesUpdateTimeSubject op)"
      using S by (simp_all add: B)
    then show ?thesis
      using True by (simp add: fin closeSubscription_fields refreshNext_fields)
  qed
qed

lemma oneChain_atMostOne:
  assumes "oneChain op" "i < length (subscriptions op)" "i' < length (subscriptions op)"
    "subscriptions op ! i \<noteq> Closed" "subscriptions op ! i' \<noteq> Closed"
  shows "i = i'"
proof -
  have "dataRefreshSubscription op = Some i" "dataRefreshSubscription op = Some i'"
    using assms by (auto simp: oneChain_iff)
  then show ?thesis by simp
qed

lemma run_Cons: "run (e # es) op = run es (step e op)"
  by (simp add: run_def)

lemma refreshBalance_twice:
  assumes one: "oneChain op" and saved: "savedWalletsList op = Some wallets"
  shows "length (subscriptions (refreshBalance (refreshBalance op))) =
       length (subscriptions op) + 2"
    and "\<forall>i\<le>length (subscriptions op).
       subscriptions (refreshBalance (refreshBalance op)) ! i = Closed"
    and "subscriptions (refreshBalance (refreshBalance op)) ! Suc (length (subscriptions op)) =
       Waiting 0 False"
    and "dataRefreshSubscription (refreshBalance (refreshBalance op)) =
       Some (Suc (length (subscriptions op)))"
    and "savedWalletsList (refreshBalance (refreshBalance op)) = Some wallets"
    and "currentCoin (refreshBalance (refreshBalance op)) = currentCoin op"
    and "lastBalancesUpdateTimeSubject (refreshBalance (refreshBalance op)) =
       lastBalancesUpdateTimeSubject op"
proof -
  let ?op1 = "refreshBalance op"
  have s1: "savedWalletsList ?op1 = Some wallets"
    by (simp add: refreshBalance_def startDataRefreshSubscription_fields saved)
  have len1: "length (subscriptions ?op1) = Suc (length (subscriptions op))"
    and d1: "dataRefreshSubscription ?op1 = Some (length (subscriptions op))"
    using saved
    by (auto simp: refreshBalance_def startDataRefreshSubscription_def unsubscribe_def Let_def
        split: option.splits)
  have old1: "\<forall>j<length (subscriptions op). subscriptions ?op1 ! j = Closed"
    using oneChain_start(2) [OF one] by (simp add: refreshBalance_def)
  have subs2: "subscriptions (refreshBalance ?op1) =
      (subscriptions ?op1)[length (subscriptions op) := Closed] @ [Waiting 0 False]"
    and d2: "dataRefreshSubscription (refreshBalance ?op1) = Some (Suc (length (subscriptions op)))"
    using s1 d1 len1
    by (simp_all add: refreshBalance_def [of ?op1] startDataRefreshSubscription_def
        unsubscribe_def Let_def)
  show "length (subscriptions (refreshBalance ?op1)) = length (subscriptions op) + 2"
    by (simp add: subs2 len1)
  show "\<forall>i\<le>length (subscriptions op). subscriptions (refreshBalance ?op1) ! i = Closed"
    using old1 len1 by (auto simp: subs2 nth_append nth_list_update)
  show "subscriptions (refreshBalance ?op1) ! Suc (length (subscriptions op)) = Waiting 0 False"
    by (simp add: subs2 nth_append len1)
  show "dataRefreshSubscription (refreshBalance ?op1) = Some (Suc (length (subscriptions op)))"
    by (rule d2)
  show "savedWalletsList (refreshBalance ?op1) = Some wallets"
    "currentCoin (refreshBalance ?op1) = currentCoin op"
    "lastBalancesUpdateTimeSubject (refreshBalance ?op1) = lastBalancesUpdateTimeSubject op"
    by (simp_all add: refreshBalance_def startDataRefreshSubscription_fields saved)
qed

lemma cancelled_chain:
  assumes k: "k < length (subscriptions s)" and closed: "subscriptions s ! k = Closed"
    and es: "list_all (onChain k) es1" "list_all (onChain k) es2" "list_all (onChain k) es3"
  shows "run (es1 @ [TimerFires node j] @ es2 @ [PassEnds node j] @ es3) s =
     passEnds node j (timerFires node j s)"
proof -
  let ?s1 = "timerFires node j s"
  let ?s2 = "passEnds node j ?s1"
  have c1: "k < length (subscriptions ?s1) \<and> subscriptions ?s1 ! k = Closed"
    using closed_timerFires [OF k closed] .
  then have c2: "k < length (subscriptions ?s2) \<and> subscriptions ?s2 ! k = Closed"
    using closed_passEnds by blast
  have "run es1 s = s"
    using closed_noops [OF k closed es(1)] .
  moreover have "run es2 ?s1 = ?s1"
    using closed_noops [OF _ _ es(2)] c1 by blast
  moreover have "run es3 ?s2 = ?s2"
    using closed_noops [OF _ _ es(3)] c2 by blast
  ultimately show ?thesis
    by (simp add: run_append run_Cons)
qed

subsection \<open>A cycle in which the node fails\<close>

lemma cycle_failure:
  assumes k: "k < length (subscriptions op)"
    and waiting: "subscriptions op ! k = Waiting delayMs updateWalletsFirst"
    and chain: "dataRefreshSubscription op = Some k"
    and saved: "savedWalletsList op = Some wallets"
    and failed: "\<not> allBalancesAnswered (currentCoin op) node wallets"
  defines "began \<equiv> networkPassBegins node wallets updateWalletsFirst op"
    and "op' \<equiv> passEnds node k (timerFires node k op)"
  shows "hadErrorRefreshingBalanceSubject op' = hadErrorRefreshingBalanceSubject op @ [True]"
    "subscriptions op' = (subscriptions op)[k := Closed] @ [Waiting (errorUpdatePeriod op) False]"
    "walletsWithBalanceList op' = walletsWithBalanceList began"
    "walletsWithBalanceSubject op' = walletsWithBalanceSubject began"
    "savedBalanceData op' = savedBalanceData op"
    "agreeBelow (nextRef (store began)) (store began) (store op')"
proof -
  note B = networkPassBegins_fields [of node wallets updateWalletsFirst op, folded began_def]
  obtain r opn where run: "refreshBalances node wallets False began = (r, opn)"
    by (cases "refreshBalances node wallets False began")
  have q: "began = (if updateWalletsFirst
      then snd (refreshBalances node wallets True
                  (op\<lparr>refreshingBalanceSubject := refreshingBalanceSubject op @ [True]\<rparr>))
      else op\<lparr>refreshingBalanceSubject := refreshingBalanceSubject op @ [True]\<rparr>)"
    by (simp add: began_def networkPassBegins_def Let_def)
  obtain tw where fin: "op' = closeSubscription k
       ((case r of Inl e \<Rightarrow> refreshError | Inr v \<Rightarrow> refreshNext)
          (opn\<lparr>subscriptions := (subscriptions op)[k := Running wallets tw]\<rparr>))"
    using cycle [OF k waiting saved q run] unfolding op'_def by blast
  let ?x = "(subscriptions op)[k := Running wallets tw]"
  have kx: "k < length ?x" using k by simp
  have "\<not> allBalancesAnswered (currentCoin began) node wallets"
    using failed by (simp add: B)
  note N = network_pass_failure [OF run this]
  have r: "r = Inl RpcError"
    and opn: "opn = began\<lparr>store := store opn,
        temporalSavedBalanceData := temporalSavedBalanceData opn\<rparr>"
    and agree: "agreeBelow (nextRef (store began)) (store began) (store opn)"
    using N by blast+
  have fields: "dataRefreshSubscription opn = Some k" "savedWalletsList opn = Some wallets"
    "errorUpdatePeriod opn = errorUpdatePeriod op"
    "hadErrorRefreshingBalanceSubject opn = hadErrorRefreshingBalanceSubject op"
    "savedBalanceData opn = savedBalanceData op"
    by (subst opn, simp add: B chain saved)+
  have same: "walletsWithBalanceList opn = walletsWithBalanceList began"
    "walletsWithBalanceSubject opn = walletsWithBalanceSubject began"
    by (subst opn, simp)+
  have fin': "op' = closeSubscription k (refreshError (opn\<lparr>subscriptions := ?x\<rparr>))"
    using fin r by simp
  note E = cycle_end_error [OF fields(1) fields(2) kx, folded fin']
  show "hadErrorRefreshingBalanceSubject op' = hadErrorRefreshingBalanceSubject op @ [True]"
    "subscriptions op' = (subscriptions op)[k := Closed] @ [Waiting (errorUpdatePeriod op) False]"
    "walletsWithBalanceList op' = walletsWithBalanceList began"
    "walletsWithBalanceSubject op' = walletsWithBalanceSubject began"
    "savedBalanceData op' = savedBalanceData op"
    "agreeBelow (nextRef (store began)) (store began) (store op')"
    using agree by (simp_all add: E fields same)
qed

lemma ex_started:
  "exampleStarted =
     (newEthBalanceAndOutputsOperator exampleCoin)
       \<lparr>savedWalletsList := Some [exampleWallet], subscriptions := [Waiting 0 True],
        dataRefreshSubscription := Some 0\<rparr>"
  by (simp add: exampleStarted_def run_def walletsChanged_def startDataRefreshSubscription_def
      unsubscribe_def Let_def newEthBalanceAndOutputsOperator_def newBalanceMap_def)

lemma ex_started_fields:
  "subscriptions exampleStarted = [Waiting 0 True]"
  "dataRefreshSubscription exampleStarted = Some 0"
  "savedWalletsList exampleStarted = Some [exampleWallet]"
  "currentCoin exampleStarted = exampleCoin"
  "walletsWithBalanceList exampleStarted = None"
  "walletsWithBalanceSubject exampleStarted = []"
  "hadErrorRefreshingBalanceSubject exampleStarted = [False]"
  "errorUpdatePeriod exampleStarted = 2000"
  "savedBalanceData exampleStarted = 0"
  "temporalSavedBalanceData exampleStarted = 1"
  "balanceMaps (store exampleStarted) r = Map.empty"
  by (simp_all add: ex_started)
    (simp_all add: newEthBalanceAndOutputsOperator_def newBalanceMap_def exampleCoin_def
      emptyStore_def)
section \<open>Claims about the blockchain operator\<close>




text \<open>
  C7. For a chain height and a number of confirmations that are natural numbers up to
  \<open>2 ^ 53\<close>, the confirmed balance of an address is asked at the block
  \<open>max 0 (height - (confirmationsNeeded - 1))\<close>, written in hexadecimal after \<^verbatim>\<open>0x\<close>, where
  \<open>height\<close> is the answer to \<^verbatim>\<open>eth_blockNumber\<close>; and the balance stored for an address of
  the wallet is the pair of the two answers of the node, decoded and divided by
  \<open>10 ^ decimals\<close>, the quotient rounded to 20 decimal places: the division is exact when
  the coin has at most 20 decimals.
\<close>

theorem C7_confirmed_block_and_units:
  assumes "height \<le> 2 ^ 53"
    and "0 \<le> confirmationsNeeded coin" "confirmationsNeeded coin \<le> 2 ^ 53"
  shows "confirmedBalanceRequest coin (Num (of_nat height)) a =
     \<lparr>url = nodeUrl coin, rpcMethod = ''eth_getBalance'',
      params = [a, Str (''0x'' @
        natToString16 (nat (max 0 (int height - (confirmationsNeeded coin - 1)))))]\<rparr>
   \<and> (node (blockNumberRequest coin) = Inr (''0x'' @ natToString16 height)
        \<and> nodeQuery coin node addrs = (sent, Inr balance) \<and> a' \<in> set addrs
        \<and> node (pendingBalanceRequest coin (Str a')) = Inr (''0x'' @ natToString16 p)
        \<and> node (confirmedBalanceRequest coin (Num (of_nat height)) (Str a')) =
            Inr (''0x'' @ natToString16 q)
      \<longrightarrow> WalletBalance.addresses balance a' =
            Some \<lparr>current = Num (roundHalfUp 20 (of_nat q / 10 ^ decimals coin)),
                  predicted = Num (roundHalfUp 20 (of_nat p / 10 ^ decimals coin))\<rparr>
          \<and> (decimals coin \<le> 20 \<longrightarrow>
                WalletBalance.addresses balance a' =
                  Some \<lparr>current = Num (of_nat q / 10 ^ decimals coin),
                        predicted = Num (of_nat p / 10 ^ decimals coin)\<rparr>)
          \<and> pendingBalanceRequest coin (Str a') \<in> set sent
          \<and> confirmedBalanceRequest coin (Num (of_nat height)) (Str a') \<in> set sent)"
proof (intro conjI impI)
  show "confirmedBalanceRequest coin (Num (of_nat height)) a =
     \<lparr>url = nodeUrl coin, rpcMethod = ''eth_getBalance'',
      params = [a, Str (''0x'' @
        natToString16 (nat (max 0 (int height - (confirmationsNeeded coin - 1)))))]\<rparr>"
    by (rule confirmedBalanceRequest_height)
next
  assume asm: "node (blockNumberRequest coin) = Inr (''0x'' @ natToString16 height)
        \<and> nodeQuery coin node addrs = (sent, Inr balance) \<and> a' \<in> set addrs
        \<and> node (pendingBalanceRequest coin (Str a')) = Inr (''0x'' @ natToString16 p)
        \<and> node (confirmedBalanceRequest coin (Num (of_nat height)) (Str a')) =
            Inr (''0x'' @ natToString16 q)"
  let ?h = "Num (of_nat height)"
  from asm have ne: "addrs \<noteq> []" by auto
  have height: "toNumber (hexToBigNumber (''0x'' @ natToString16 height)) = ?h"
    using assms(1) by (simp add: hexToBigNumber_natToString16 nearestDouble_nat)
  from asm obtain sent' m where
    rec: "recursivelyGetBalances coin node addrs ?h Map.empty = (sent', Inr m)"
    and sent: "sent = blockNumberRequest coin # sent'"
    and balance: "balance = fold (addAddressBalance m) addrs newWalletBalance"
    using height by (auto elim!: nodeQuery_Inr)
  have answered: "allAnswered coin node ?h addrs"
    using recursivelyGetBalances_result [OF ne, of coin node ?h Map.empty] rec
    by (auto split: if_splits)
  then have m: "m = fetchedMap coin node ?h addrs Map.empty"
    using recursivelyGetBalances_result [OF ne, of coin node ?h Map.empty] rec by simp
  have fetch: "fetchBalance coin node ?h (Str a') =
      (requestsFor coin ?h (Str a'),
       Inr \<lparr>current = Num (roundHalfUp 20 (of_nat q / 10 ^ decimals coin)),
            predicted = Num (roundHalfUp 20 (of_nat p / 10 ^ decimals coin))\<rparr>)"
    using asm
    by (simp add: fetchBalance_def requestsFor_def hexToBigNumber_natToString16
        decimalsCorrector_def decimalPlaces_def)
  show stored: "WalletBalance.addresses balance a' =
      Some \<lparr>current = Num (roundHalfUp 20 (of_nat q / 10 ^ decimals coin)),
            predicted = Num (roundHalfUp 20 (of_nat p / 10 ^ decimals coin))\<rparr>"
    using asm fetch by (simp add: balance addresses_fold_addAddressBalance m fetchedMap_def)
  show "WalletBalance.addresses balance a' =
      Some \<lparr>current = Num (of_nat q / 10 ^ decimals coin),
            predicted = Num (of_nat p / 10 ^ decimals coin)\<rparr>"
    if "decimals coin \<le> 20"
    using that by (simp add: stored roundHalfUp_exact)
  have "sent' = concat (map (requestsFor coin ?h \<circ> Str) (rev addrs))"
    using recursivelyGetBalances_sent [OF ne answered, of Map.empty] rec by simp
  with asm have "set (requestsFor coin ?h (Str a')) \<subseteq> set sent'"
    by auto
  then show "pendingBalanceRequest coin (Str a') \<in> set sent"
    and "confirmedBalanceRequest coin (Num (of_nat height)) (Str a') \<in> set sent"
    by (simp_all add: sent requestsFor_def)
qed

theorem C7_witness:
  "WalletBalance.addresses (projr (snd (nodeQuery exampleCoin exampleNode [''A1'', ''A2'']))) ''A2'' =
     Some \<lparr>current = Num 3, predicted = Num 4\<rparr>
   \<and> \<lparr>url = ''http://node'', rpcMethod = ''eth_getBalance'',
       params = [Str ''A2'', Str ''0x8'']\<rparr>
       \<in> set (fst (nodeQuery exampleCoin exampleNode [''A1'', ''A2'']))"
proof -
  let ?q = "nodeQuery exampleCoin exampleNode [''A1'', ''A2'']"
  have n: "natToString16 10 = ''a''" "natToString16 40 = ''28''" "natToString16 30 = ''1e''"
    by (simp_all add: natToString16.simps digitChar_def)
  have c: "exampleNode (confirmedBalanceRequest exampleCoin (Num 10) (Str ''A2'')) = Inr ''0x1e''"
    "exampleNode (pendingBalanceRequest exampleCoin (Str ''A2'')) = Inr ''0x28''"
    "exampleNode (blockNumberRequest exampleCoin) = Inr ''0xa''"
    by (simp_all add: ex_requests exampleNode_def)
  have range: "(10 :: nat) \<le> 2 ^ 53" "0 \<le> confirmationsNeeded exampleCoin"
    "confirmationsNeeded exampleCoin \<le> 2 ^ 53"
    by (simp_all add: exampleCoin_def)
  have hyp: "exampleNode (blockNumberRequest exampleCoin) = Inr (''0x'' @ natToString16 10)
      \<and> ?q = (fst ?q, Inr (projr (snd ?q))) \<and> ''A2'' \<in> set [''A1'', ''A2'']
      \<and> exampleNode (pendingBalanceRequest exampleCoin (Str ''A2'')) =
          Inr (''0x'' @ natToString16 40)
      \<and> exampleNode (confirmedBalanceRequest exampleCoin (Num (of_nat 10)) (Str ''A2'')) =
          Inr (''0x'' @ natToString16 30)"
    by (simp add: n c ex_nodeQuery)
  have d: "decimals exampleCoin \<le> 20" "decimals exampleCoin = 1"
    by (simp_all add: exampleCoin_def)
  note W = C7_confirmed_block_and_units [OF range, of "Str ''A2''" exampleNode
      "[''A1'', ''A2'']" "fst ?q" "projr (snd ?q)" "''A2''" 40 30, THEN conjunct2,
      rule_format, OF hyp, THEN conjunct2]
  have "WalletBalance.addresses (projr (snd ?q)) ''A2'' =
      Some \<lparr>current = Num (of_nat 30 / 10 ^ decimals exampleCoin),
            predicted = Num (of_nat 40 / 10 ^ decimals exampleCoin)\<rparr>"
    by (rule W [THEN conjunct1, rule_format, OF d(1)])
  moreover have "confirmedBalanceRequest exampleCoin (Num (of_nat 10)) (Str ''A2'') \<in> set (fst ?q)"
    by (rule W [THEN conjunct2, THEN conjunct2])
  moreover have "confirmedBalanceRequest exampleCoin (Num (of_nat 10)) (Str ''A2'') =
      \<lparr>url = ''http://node'', rpcMethod = ''eth_getBalance'',
       params = [Str ''A2'', Str ''0x8'']\<rparr>"
    by (simp add: ex_requests)
  ultimately show ?thesis by (simp add: d(2) roundHalfUp_numeral)
qed

text \<open>
  The claim as the specification has it, for every coin: with 21 decimals and a node that
  answers \<^verbatim>\<open>0x1\<close> to every request of a balance, the quotient is \<open>1 / 10 ^ 21\<close>, and the
  balance that the operator has for the address is 0.
\<close>

theorem C7_counterexample:
  "hexToBigNumber ''0x1'' = Num 1
   \<and> snd (nodeQuery exampleFineCoin exampleDustNode [''A1'']) =
       Inr \<lparr>current = Num 0, predicted = Num 0,
            WalletBalance.addresses = [''A1'' \<mapsto> \<lparr>current = Num 0, predicted = Num 0\<rparr>]\<rparr>
   \<and> (1 :: rat) / 10 ^ decimals exampleFineCoin \<noteq> 0"
proof -
  have p: "hexToBigNumber ''0x1'' = Num 1"
    by (simp add: hexToBigNumber_def bigNumberBase16_def digitsBase16_def digitValue_def)
  have fl: "\<lfloor>\<bar>1 / 1000000000000000000000 :: rat\<bar> * 10 ^ 20 + 1 / 2\<rfloor> = 0"
    by (rule floor_unique) simp_all
  have r: "roundHalfUp 20 (1 / 1000000000000000000000) = 0"
    unfolding roundHalfUp_def fl by simp
  have d: "decimals exampleFineCoin = 21"
    by (simp add: exampleFineCoin_def exampleCoin_def)
  have f: "fetchBalance exampleFineCoin exampleDustNode h (Str ''A1'') =
      (requestsFor exampleFineCoin h (Str ''A1''), Inr \<lparr>current = Num 0, predicted = Num 0\<rparr>)"
    for h
    by (simp add: fetchBalance_def requestsFor_def exampleDustNode_def pendingBalanceRequest_def
        confirmedBalanceRequest_def p d decimalsCorrector_def decimalPlaces_def r)
  have "snd (recursivelyGetBalances exampleFineCoin exampleDustNode [''A1''] h Map.empty) =
      Inr [Str ''A1'' \<mapsto> \<lparr>current = Num 0, predicted = Num 0\<rparr>]" for h
    using recursivelyGetBalances_snoc [of exampleFineCoin exampleDustNode "[]" "''A1''" h Map.empty]
    by (simp add: f)
  then obtain s where "recursivelyGetBalances exampleFineCoin exampleDustNode [''A1'']
      (toNumber (hexToBigNumber ''0xa'')) Map.empty =
      (s, Inr [Str ''A1'' \<mapsto> \<lparr>current = Num 0, predicted = Num 0\<rparr>])"
    by (metis prod.collapse)
  then have "snd (nodeQuery exampleFineCoin exampleDustNode [''A1'']) =
       Inr \<lparr>current = Num 0, predicted = Num 0,
            WalletBalance.addresses = [''A1'' \<mapsto> \<lparr>current = Num 0, predicted = Num 0\<rparr>]\<rparr>"
    by (simp add: nodeQuery_def exampleDustNode_def blockNumberRequest_def Let_def
        addAddressBalance_def newWalletBalance_def)
  then show ?thesis
    using p by (simp add: d)
qed

text \<open>
  C9. The balances come back in a map keyed by address, and what a wallet gets does not depend
  on the order of its addresses: for two lists with the same addresses, each as often, and
  the answers of the node a function of the request, the result of
  \<^verbatim>\<open>recursivelyGetBalances\<close> is the same (the same map, or an error for both) and so is the
  balance of the wallet, with its current and predicted sums.
\<close>

theorem C9_order_independent:
  "mset xs = mset ys \<Longrightarrow>
   snd (recursivelyGetBalances coin node xs h Map.empty) =
     snd (recursivelyGetBalances coin node ys h Map.empty)
   \<and> snd (nodeQuery coin node xs) = snd (nodeQuery coin node ys)"
proof
  assume perm: "mset xs = mset ys"
  show "snd (recursivelyGetBalances coin node xs h Map.empty) =
     snd (recursivelyGetBalances coin node ys h Map.empty)"
    by (rule recursivelyGetBalances_mset [OF perm])
  show "snd (nodeQuery coin node xs) = snd (nodeQuery coin node ys)"
  proof (cases "node (blockNumberRequest coin)")
    case (Inl e)
    then show ?thesis by (simp add: nodeQuery_def)
  next
    case (Inr result)
    let ?h = "toNumber (hexToBigNumber result)"
    have r: "snd (recursivelyGetBalances coin node xs ?h Map.empty) =
        snd (recursivelyGetBalances coin node ys ?h Map.empty)"
      by (rule recursivelyGetBalances_mset [OF perm])
    show ?thesis
    proof (cases "snd (recursivelyGetBalances coin node xs ?h Map.empty)")
      case (Inl e)
      with r Inr show ?thesis
        by (auto simp: nodeQuery_def Let_def split: prod.splits sum.splits)
    next
      case inr: (Inr m)
      with r Inr show ?thesis
        using fold_addAddressBalance_mset [OF perm, of m newWalletBalance]
        by (auto simp: nodeQuery_def Let_def split: prod.splits sum.splits)
    qed
  qed
qed

theorem C9_witness:
  "mset [''A1'', ''A2''] = mset [''A2'', ''A1'']
   \<and> snd (recursivelyGetBalances exampleCoin exampleNode [''A1'', ''A2''] (Num 10) Map.empty) =
       snd (recursivelyGetBalances exampleCoin exampleNode [''A2'', ''A1''] (Num 10) Map.empty)
   \<and> snd (nodeQuery exampleCoin exampleNode [''A1'', ''A2'']) =
       snd (nodeQuery exampleCoin exampleNode [''A2'', ''A1''])"
proof -
  have "mset [''A1'', ''A2''] = mset [''A2'', ''A1'']" by simp
  then show ?thesis
    using C9_order_independent [of "[''A1'', ''A2'']" "[''A2'', ''A1'']" exampleCoin exampleNode
        "Num 10"]
    by blast
qed

text \<open>
  C10. \<^verbatim>\<open>recursivelyGetBalances\<close> terminates (it is a total function: each call removes
  one address). For a non-empty list it sends the pending and the confirmed request of each
  address once, last address first, stopping at the first request the node does not
  answer; when the node answers all of them it returns a map whose keys are exactly the
  addresses of the list. For the empty list it does not return the empty map: it reads the
  missing last element, sends the requests for the address \<^verbatim>\<open>undefined\<close> and stores the
  answer under that key.
\<close>

theorem C10_recursivelyGetBalances:
  "(addrs \<noteq> [] \<longrightarrow>
      prefix (fst (recursivelyGetBalances coin node addrs h Map.empty))
        (concat (map (requestsFor coin h \<circ> Str) (rev addrs)))
      \<and> (allAnswered coin node h addrs \<longrightarrow>
            fst (recursivelyGetBalances coin node addrs h Map.empty) =
              concat (map (requestsFor coin h \<circ> Str) (rev addrs))
            \<and> length (fst (recursivelyGetBalances coin node addrs h Map.empty)) =
                2 * length addrs
            \<and> (\<exists>m. snd (recursivelyGetBalances coin node addrs h Map.empty) = Inr m
                   \<and> dom m = Str ` set addrs))
      \<and> (\<not> allAnswered coin node h addrs \<longrightarrow>
            snd (recursivelyGetBalances coin node addrs h Map.empty) = Inl RpcError))
   \<and> recursivelyGetBalances coin node [] h Map.empty =
       (case fetchBalance coin node h Undefined of
          (sent, Inl e) \<Rightarrow> (sent, Inl e)
        | (sent, Inr b) \<Rightarrow> (sent, Inr [Undefined \<mapsto> b]))
   \<and> hd (fst (recursivelyGetBalances coin node [] h Map.empty)) =
       pendingBalanceRequest coin Undefined
   \<and> snd (recursivelyGetBalances coin node [] h Map.empty) \<noteq> Inr Map.empty"
proof (intro conjI impI)
  assume ne: "addrs \<noteq> []"
  show "prefix (fst (recursivelyGetBalances coin node addrs h Map.empty))
        (concat (map (requestsFor coin h \<circ> Str) (rev addrs)))"
    by (rule recursivelyGetBalances_sent_prefix [OF ne])
next
  assume "addrs \<noteq> []" and "allAnswered coin node h addrs"
  then show "fst (recursivelyGetBalances coin node addrs h Map.empty) =
      concat (map (requestsFor coin h \<circ> Str) (rev addrs))"
    by (rule recursivelyGetBalances_sent)
next
  assume "addrs \<noteq> []" and "allAnswered coin node h addrs"
  then show "length (fst (recursivelyGetBalances coin node addrs h Map.empty)) = 2 * length addrs"
    by (simp add: recursivelyGetBalances_sent length_concat_requestsFor)
next
  assume "addrs \<noteq> []" and "allAnswered coin node h addrs"
  then show "\<exists>m. snd (recursivelyGetBalances coin node addrs h Map.empty) = Inr m
      \<and> dom m = Str ` set addrs"
    by (simp add: recursivelyGetBalances_result dom_fetchedMap)
next
  assume "addrs \<noteq> []" and "\<not> allAnswered coin node h addrs"
  then show "snd (recursivelyGetBalances coin node addrs h Map.empty) = Inl RpcError"
    by (simp add: recursivelyGetBalances_result)
next
  show "recursivelyGetBalances coin node [] h Map.empty =
       (case fetchBalance coin node h Undefined of
          (sent, Inl e) \<Rightarrow> (sent, Inl e)
        | (sent, Inr b) \<Rightarrow> (sent, Inr [Undefined \<mapsto> b]))"
    by (rule recursivelyGetBalances_Nil)
next
  show "hd (fst (recursivelyGetBalances coin node [] h Map.empty)) =
       pendingBalanceRequest coin Undefined"
    by (simp add: recursivelyGetBalances_Nil fetchBalance_def split: sum.splits)
next
  show "snd (recursivelyGetBalances coin node [] h Map.empty) \<noteq> Inr Map.empty"
    by (auto simp: recursivelyGetBalances_Nil fetchBalance_def fun_eq_iff split: sum.splits
        dest!: fun_cong [where x = Undefined])
qed

theorem C10_witness:
  "[''A1'', ''A2''] \<noteq> [] \<and> allAnswered exampleCoin exampleNode (Num 10) [''A1'', ''A2'']
   \<and> length (fst (recursivelyGetBalances exampleCoin exampleNode [''A1'', ''A2''] (Num 10) Map.empty)) = 4
   \<and> (\<exists>m. snd (recursivelyGetBalances exampleCoin exampleNode [''A1'', ''A2''] (Num 10) Map.empty) = Inr m
         \<and> dom m = {Str ''A1'', Str ''A2''})"
  using C10_recursivelyGetBalances [of "[''A1'', ''A2'']" exampleCoin exampleNode "Num 10"]
    ex_allAnswered
  by (simp add: requestsFor_def)


text \<open>
  C2. When there is no published list, or the list of the pass has another number of wallets,
  or the ids of two wallets at the same position differ, the reconciliation makes the list
  of the pass the published list and emits it: nothing else of the operator changes, and
  the callback of \<^verbatim>\<open>tap\<close> that contains the reconciliation leaves the store as it is.
\<close>

theorem C2_coarse_replace:
  "(walletsWithBalanceList op = None
    \<or> (\<exists>current'. walletsWithBalanceList op = Some current'
          \<and> (length (walletArrays (store op) current') \<noteq>
                length (walletArrays (store op) temporalWallets)
              \<or> (\<exists>i<length (walletArrays (store op) current').
                    id' (walletObjects (store op) (walletArrays (store op) current' ! i)) \<noteq>
                    id' (walletObjects (store op)
                          (walletArrays (store op) temporalWallets ! i))))))
   \<longrightarrow> updateWalletsWithBalanceList temporalWallets force op =
         op\<lparr>walletsWithBalanceList := Some temporalWallets,
            walletsWithBalanceSubject := walletsWithBalanceSubject op @ [Some temporalWallets]\<rparr>
       \<and> walletsWithBalanceList (refreshBalancesTap temporalWallets force pending op) =
           Some temporalWallets
       \<and> walletsWithBalanceSubject (refreshBalancesTap temporalWallets force pending op) =
           walletsWithBalanceSubject op @ [Some temporalWallets]
       \<and> store (refreshBalancesTap temporalWallets force pending op) = store op"
proof
  assume h: "walletsWithBalanceList op = None
    \<or> (\<exists>current'. walletsWithBalanceList op = Some current'
          \<and> (length (walletArrays (store op) current') \<noteq>
                length (walletArrays (store op) temporalWallets)
              \<or> (\<exists>i<length (walletArrays (store op) current').
                    id' (walletObjects (store op) (walletArrays (store op) current' ! i)) \<noteq>
                    id' (walletObjects (store op)
                          (walletArrays (store op) temporalWallets ! i)))))"
  have upd: "\<And>op' f. walletsWithBalanceList op' = walletsWithBalanceList op \<Longrightarrow> store op' = store op \<Longrightarrow>
      updateWalletsWithBalanceList temporalWallets f op' =
        op'\<lparr>walletsWithBalanceList := Some temporalWallets,
            walletsWithBalanceSubject := walletsWithBalanceSubject op' @ [Some temporalWallets]\<rparr>"
    using h
    by (auto simp: updateWalletsWithBalanceList_def updateWholeList_eq idChangeDetected_iff)
  show "updateWalletsWithBalanceList temporalWallets force op =
         op\<lparr>walletsWithBalanceList := Some temporalWallets,
            walletsWithBalanceSubject := walletsWithBalanceSubject op @ [Some temporalWallets]\<rparr>
       \<and> walletsWithBalanceList (refreshBalancesTap temporalWallets force pending op) =
           Some temporalWallets
       \<and> walletsWithBalanceSubject (refreshBalancesTap temporalWallets force pending op) =
           walletsWithBalanceSubject op @ [Some temporalWallets]
       \<and> store (refreshBalancesTap temporalWallets force pending op) = store op"
    by (simp add: upd refreshBalancesTap_def Let_def)
qed


theorem C2_witness:
  "walletsWithBalanceList (newEthBalanceAndOutputsOperator exampleCoin) = None
   \<and> updateWalletsWithBalanceList 11 False (newEthBalanceAndOutputsOperator exampleCoin) =
       (newEthBalanceAndOutputsOperator exampleCoin)
         \<lparr>walletsWithBalanceList := Some 11, walletsWithBalanceSubject := [Some 11]\<rparr>"
proof -
  have n: "walletsWithBalanceList (newEthBalanceAndOutputsOperator exampleCoin) = None"
    "walletsWithBalanceSubject (newEthBalanceAndOutputsOperator exampleCoin) = []"
    by (simp_all add: newEthBalanceAndOutputsOperator_def newBalanceMap_def)
  show ?thesis
    using C2_coarse_replace [of "newEthBalanceAndOutputsOperator exampleCoin" 11 False]
    by (simp add: n)
qed

text \<open>
  C1, as amended. In the reconciliation of a network pass (not of the quick pass, which always
  replaces the list), when the published list and the list of the pass have as many wallets
  with the same ids and as many addresses, and the coins differ in one address only (and
  possibly in the wallet that owns it), the operator keeps the reference of the published
  list, assigns the coins of that address, and the coins of its wallet if they changed, in
  place, leaves every other field of every object as it is, and emits the published list once.
\<close>

theorem C1_one_address_differs:
  assumes network: "\<not> forceQuickCompleteArrayUpdate"
    and published: "walletsWithBalanceList op = Some current'"
    and ws: "ws = walletArrays (store op) current'"
    and ts: "ts = walletArrays (store op) temporalWallets"
    and one: "onlyOneAddressDiffers (store op) ws ts i0 j0"
    and sep: "separated (store op) ws ts"
  shows "updateWalletsWithBalanceList temporalWallets forceQuickCompleteArrayUpdate op =
     op\<lparr>store :=
          setAddressCoins (walletAddressRefs (store op) (ws ! i0) ! j0)
            (addressCoins (store op) (walletAddressRefs (store op) (ts ! i0) ! j0))
            (if isEqualTo (walletCoins (store op) (ws ! i0)) (walletCoins (store op) (ts ! i0))
             then store op
             else setWalletCoins (ws ! i0) (walletCoins (store op) (ts ! i0)) (store op)),
        walletsWithBalanceSubject := walletsWithBalanceSubject op @ [Some current']\<rparr>"
proof -
  from one have len: "length ws = length ts"
    and ids: "\<forall>i<length ws. id' (walletObjects (store op) (ws ! i)) =
                               id' (walletObjects (store op) (ts ! i))"
    and counts: "\<forall>i<length ws. length (walletAddressRefs (store op) (ws ! i)) =
                                  length (walletAddressRefs (store op) (ts ! i))"
    and i0: "i0 < length ws" and j0: "j0 < length (walletAddressRefs (store op) (ws ! i0))"
    and address: "\<forall>i<length ws. \<forall>j<length (walletAddressRefs (store op) (ws ! i)).
        isEqualTo (addressCoins (store op) (walletAddressRefs (store op) (ws ! i) ! j))
          (addressCoins (store op) (walletAddressRefs (store op) (ts ! i) ! j)) =
        (\<not> (i = i0 \<and> j = j0))"
    and wallets: "\<forall>i<length ws. i \<noteq> i0 \<longrightarrow>
        isEqualTo (walletCoins (store op) (ws ! i)) (walletCoins (store op) (ts ! i))"
    by (auto simp: onlyOneAddressDiffers_iff)
  let ?s = "store op"
  let ?w0 = "ws ! i0" and ?t0 = "ts ! i0"
  let ?a0 = "walletAddressRefs ?s ?w0 ! j0"
  let ?s1 = "if isEqualTo (walletCoins ?s ?w0) (walletCoins ?s ?t0) then ?s
             else setWalletCoins ?w0 (walletCoins ?s ?t0) ?s"
  let ?s2 = "setAddressCoins ?a0 (addressCoins ?s (walletAddressRefs ?s ?t0 ! j0)) ?s1"
  let ?refs = "map (walletAddressRefs ?s) ws"
  from sep have dws: "distinct ws"
    and dcs: "distinct (concat ?refs)"
    and wt: "set ws \<inter> set ts = {}"
    and at: "set (concat ?refs) \<inter> set (concat (map (walletAddressRefs ?s) ts)) = {}"
    by (simp_all add: separated_def)
  have a0_in: "?a0 \<in> set (walletAddressRefs ?s ?w0)"
    using j0 by simp
  have a0_pub: "?a0 \<in> set (concat ?refs)"
    using a0_in i0 by auto
  have a0_not_temporal: "\<And>i. i < length ts \<Longrightarrow> ?a0 \<notin> set (walletAddressRefs ?s (ts ! i))"
  proof
    fix i assume "i < length ts" and "?a0 \<in> set (walletAddressRefs ?s (ts ! i))"
    then have "?a0 \<in> set (concat (map (walletAddressRefs ?s) ts))"
      by auto
    with at a0_pub show False by blast
  qed
  have a0_not_other: "\<And>i. i < length ws \<Longrightarrow> i \<noteq> i0 \<Longrightarrow>
      ?a0 \<notin> set (walletAddressRefs ?s (ws ! i))"
  proof -
    fix i assume i: "i < length ws" "i \<noteq> i0"
    have "set (?refs ! i0) \<inter> set (?refs ! i) = {}"
      using dcs i i0 by (intro distinct_concat_nth) simp_all
    then show "?a0 \<notin> set (walletAddressRefs ?s (ws ! i))"
      using a0_in i i0 by auto
  qed
  have d0: "distinct (walletAddressRefs ?s ?w0)"
    using distinct_concat_nth_distinct [OF dcs, of i0] i0 by simp
  \<comment> \<open>the wallets before \<open>i0\<close>\<close>
  have same: "\<And>i. i < length ws \<Longrightarrow> i \<noteq> i0 \<Longrightarrow> walletSame ?s (ws ! i) (ts ! i)"
    using address wallets counts by (simp add: walletSame_iff)
  have pre: "updateBalances (take i0 ws) 0 ts (?s, False) = (?s, False)"
    by (rule updateBalances_same) (use i0 same in auto)
  \<comment> \<open>the wallet \<open>i0\<close>\<close>
  have step: "updateWalletBalances ?w0 ?t0 (?s, False) = (?s2, True)"
  proof (rule updateWalletBalances_one)
    show "length (walletAddressRefs ?s ?w0) = length (walletAddressRefs ?s ?t0)"
      using counts i0 by simp
    show "j0 < length (walletAddressRefs ?s ?w0)" by (rule j0)
    show "\<And>j. j < length (walletAddressRefs ?s ?w0) \<Longrightarrow>
        isEqualTo (addressCoins ?s (walletAddressRefs ?s ?w0 ! j))
          (addressCoins ?s (walletAddressRefs ?s ?t0 ! j)) = (j \<noteq> j0)"
      using address i0 by simp
    show "distinct (walletAddressRefs ?s ?w0)" by (rule d0)
    show "?a0 \<notin> set (walletAddressRefs ?s ?t0)"
      using a0_not_temporal i0 len by simp
  qed
  \<comment> \<open>the wallets after \<open>i0\<close>, in the store with the two new values\<close>
  have w_other: "\<And>r. r \<noteq> ?w0 \<Longrightarrow> walletObjects ?s2 r = walletObjects ?s r"
    by simp
  have a_other: "\<And>r. r \<noteq> ?a0 \<Longrightarrow> addressObjects ?s2 r = addressObjects ?s r"
    by simp
  have arrays: "addressArrays ?s2 = addressArrays ?s"
    by simp
  have post: "updateBalances (drop (Suc i0) ws) (Suc i0) ts (?s2, True) = (?s2, True)"
  proof (rule updateBalances_same)
    fix k assume "k < length (drop (Suc i0) ws)"
    then have lt: "Suc i0 + k < length ws" by simp
    let ?c = "ws ! (Suc i0 + k)" and ?t = "ts ! (Suc i0 + k)"
    have c: "drop (Suc i0) ws ! k = ?c"
      using lt by simp
    have "?c \<noteq> ?w0"
      using dws lt i0 by (simp add: nth_eq_iff_index_eq)
    moreover have "?t \<noteq> ?w0"
      using wt lt len i0 by (metis disjoint_iff nth_mem)
    moreover have "\<And>a. a \<in> set (walletAddressRefs ?s ?c) \<union> set (walletAddressRefs ?s ?t) \<Longrightarrow>
        a \<noteq> ?a0"
      using a0_not_other [of "Suc i0 + k"] a0_not_temporal [of "Suc i0 + k"] lt len by auto
    ultimately have "walletSame ?s2 ?c ?t = walletSame ?s ?c ?t"
      by (intro walletSame_cong w_other a_other arrays)
    then show "walletSame ?s2 (drop (Suc i0) ws ! k) (ts ! (Suc i0 + k))"
      using same [of "Suc i0 + k"] lt by (simp add: c)
  qed
  have "ws = take i0 ws @ ?w0 # drop (Suc i0) ws"
    using i0 by (rule id_take_nth_drop)
  then have "updateBalances ws 0 ts (?s, False) =
      updateBalances (?w0 # drop (Suc i0) ws) i0 ts (updateBalances (take i0 ws) 0 ts (?s, False))"
    using i0 by (metis updateBalances_append add_0 length_take min.absorb2 less_imp_le)
  then have loop: "updateBalances ws 0 ts (?s, False) = (?s2, True)"
    by (simp add: pre step post)
  have noid: "\<not> idChangeDetected ?s ws ts"
    using ids by (simp add: idChangeDetected_iff)
  show ?thesis
    using network published len noid loop
    by (simp add: updateWalletsWithBalanceList_def ws [symmetric] ts [symmetric]
        informDataUpdated_def)
qed


theorem C1_witness:
  "updateWalletsWithBalanceList 11 False exampleOperator =
     exampleOperator
       \<lparr>store := setAddressCoins 3 (Num 7) (setWalletCoins 5 (Num 12) exampleStore),
        walletsWithBalanceSubject := [Some 6, Some 6]\<rparr>"
proof -
  have "\<not> False" by simp
  moreover have "walletsWithBalanceList exampleOperator = Some 6" by simp
  moreover have "[5] = walletArrays (store exampleOperator) 6" by simp
  moreover have "[10] = walletArrays (store exampleOperator) 11" by simp
  moreover have "onlyOneAddressDiffers (store exampleOperator) [5] [10] 0 1"
    using ex_onlyOne by simp
  moreover have "separated (store exampleOperator) [5] [10]"
    using ex_separated by simp
  ultimately have "updateWalletsWithBalanceList 11 False exampleOperator =
     exampleOperator\<lparr>store :=
          setAddressCoins (walletAddressRefs (store exampleOperator) ([5] ! 0) ! 1)
            (addressCoins (store exampleOperator)
               (walletAddressRefs (store exampleOperator) ([10] ! 0) ! 1))
            (if isEqualTo (walletCoins (store exampleOperator) ([5] ! 0))
                  (walletCoins (store exampleOperator) ([10] ! 0))
             then store exampleOperator
             else setWalletCoins ([5] ! 0) (walletCoins (store exampleOperator) ([10] ! 0))
                    (store exampleOperator)),
        walletsWithBalanceSubject := walletsWithBalanceSubject exampleOperator @ [Some 6]\<rparr>"
    by (rule C1_one_address_differs)
  then show ?thesis
    by simp
qed

text \<open>
  C1 as it is stated fails in the quick pass: with the same two lists the reconciliation
  replaces the published list by the list of the pass and changes no field of the published
  objects.
\<close>

theorem C1_counterexample:
  "walletsWithBalanceList exampleOperator = Some 6
   \<and> walletArrays (store exampleOperator) 6 = [5]
   \<and> walletArrays (store exampleOperator) 11 = [10]
   \<and> onlyOneAddressDiffers (store exampleOperator) [5] [10] 0 1
   \<and> separated (store exampleOperator) [5] [10]
   \<and> walletsWithBalanceList (updateWalletsWithBalanceList 11 True exampleOperator) = Some 11
   \<and> walletsWithBalanceList (updateWalletsWithBalanceList 11 True exampleOperator) \<noteq>
       walletsWithBalanceList exampleOperator
   \<and> store (updateWalletsWithBalanceList 11 True exampleOperator) = store exampleOperator
   \<and> walletsWithBalanceSubject (updateWalletsWithBalanceList 11 True exampleOperator) =
       [Some 6, Some 11]"
proof -
  have r: "updateWalletsWithBalanceList 11 True exampleOperator =
      exampleOperator\<lparr>walletsWithBalanceList := Some 11,
        walletsWithBalanceSubject := [Some 6, Some 11]\<rparr>"
    by (simp add: updateWalletsWithBalanceList_def updateWholeList_eq)
  show ?thesis
    using ex_onlyOne ex_separated by (simp add: r)
qed

text \<open>
  C4. In a network pass that succeeds, the node gives for every wallet a balance of which
  the confirmed part is the sum of the confirmed balances of its addresses and the
  predicted part the sum of their predicted balances; \<^verbatim>\<open>retrieveWalletBalance\<close> returns
  for a wallet that the two differ; \<^verbatim>\<open>hasPendingTransactionsSubject\<close> emits once, the
  disjunction of what the wallets returned; and the coins of the published wallets are the
  predicted balances of the wallets, in their order.
\<close>

theorem C4_pending_transactions:
  assumes run: "refreshBalances node wallets False op = (Inr (), op')"
    and wf: "publishedWellFormed op"
  shows "(\<forall>w\<in>set wallets. \<exists>balance.
            nodeBalance (currentCoin op) node w = Inr balance
            \<and> current balance =
                sumBigNumbers (map (\<lambda>a. currentOf balance (address a)) (addresses w))
            \<and> predicted balance =
                sumBigNumbers (map (\<lambda>a. coinsOf balance (address a)) (addresses w)))
   \<and> (\<forall>wallet op0 op1 signal op2.
         retrieveWalletBalance node wallet False op0 op1 = (Inr signal, op2) \<longrightarrow>
         (\<exists>balance. snd (nodeQuery (currentCoin op1) node (walletAddresses (store op1) wallet)) =
                       Inr balance
            \<and> signal = (\<not> isEqualTo (current balance) (predicted balance))))
   \<and> hasPendingTransactionsSubject op' =
       hasPendingTransactionsSubject op @
         [\<exists>w\<in>set wallets. \<not> isEqualTo (current (projr (nodeBalance (currentCoin op) node w)))
                                  (predicted (projr (nodeBalance (currentCoin op) node w)))]
   \<and> (\<exists>views. publishedView op' = Some views
         \<and> map WalletWithBalance.coins views =
             map (\<lambda>w. predicted (projr (nodeBalance (currentCoin op) node w))) wallets)"
proof -
  have answered: "allBalancesAnswered (currentCoin op) node wallets"
    using network_pass_result [of node wallets op] run by (simp split: if_splits)
  note S = network_pass_success [OF run answered]
  have sums: "\<forall>w\<in>set wallets. \<exists>balance.
            nodeBalance (currentCoin op) node w = Inr balance
            \<and> current balance =
                sumBigNumbers (map (\<lambda>a. currentOf balance (address a)) (addresses w))
            \<and> predicted balance =
                sumBigNumbers (map (\<lambda>a. coinsOf balance (address a)) (addresses w))"
    using answered nodeBalance_sums unfolding allBalancesAnswered_iff by blast
  have signal: "\<forall>wallet op0 op1 signal op2.
         retrieveWalletBalance node wallet False op0 op1 = (Inr signal, op2) \<longrightarrow>
         (\<exists>balance. snd (nodeQuery (currentCoin op1) node (walletAddresses (store op1) wallet)) =
                       Inr balance
            \<and> signal = (\<not> isEqualTo (current balance) (predicted balance)))"
    by (auto simp: retrieveWalletBalance_network balanceObservable_def split: sum.splits)
  have pending: "hasPendingTransactionsSubject op' =
       hasPendingTransactionsSubject op @
         [\<exists>w\<in>set wallets. \<not> isEqualTo (current (projr (nodeBalance (currentCoin op) node w)))
                                  (predicted (projr (nodeBalance (currentCoin op) node w)))]"
    using S by (simp add: list_ex_iff hasPendingTx_def)
  obtain l where l: "walletsWithBalanceList op' = Some l"
    and coins: "map (walletCoins (store op')) (walletArrays (store op') l) =
        map (\<lambda>w. predicted (projr (nodeBalance (currentCoin op) node w))) wallets"
    using S wf by blast
  have "publishedView op' = Some (listView (store op') l)"
    by (simp add: publishedView_def l)
  moreover have "map WalletWithBalance.coins (listView (store op') l) =
      map (walletCoins (store op')) (walletArrays (store op') l)"
    by (simp add: listView_def walletView_def)
  ultimately have views: "\<exists>views. publishedView op' = Some views
         \<and> map WalletWithBalance.coins views =
             map (\<lambda>w. predicted (projr (nodeBalance (currentCoin op) node w))) wallets"
    using coins by simp
  from sums signal pending views show ?thesis
    by blast
qed

text \<open>
  The wallet W of the example, with 5 coins confirmed and predicted in A1, and 3 confirmed
  and 4 predicted in A2: the pass emits \<open>True\<close> and publishes W with 9 coins.
\<close>

theorem C4_witness:
  "fst (refreshBalances exampleNode [exampleWallet] False exampleOperator) = Inr ()
   \<and> publishedWellFormed exampleOperator
   \<and> hasPendingTransactionsSubject exampleOperator = [False]
   \<and> hasPendingTransactionsSubject
       (snd (refreshBalances exampleNode [exampleWallet] False exampleOperator)) = [False, True]
   \<and> (\<exists>views. publishedView
                 (snd (refreshBalances exampleNode [exampleWallet] False exampleOperator)) =
                 Some views
         \<and> map WalletWithBalance.coins views = [Num 9])"
proof -
  have answered: "allBalancesAnswered exampleCoin exampleNode [exampleWallet]"
    by (simp add: allBalancesAnswered_def ex_nodeBalance)
  have r: "fst (refreshBalances exampleNode [exampleWallet] False exampleOperator) = Inr ()"
    by (simp add: network_pass_result ex_coin answered)
  then have run: "refreshBalances exampleNode [exampleWallet] False exampleOperator =
      (Inr (), snd (refreshBalances exampleNode [exampleWallet] False exampleOperator))"
    by (metis prod.collapse)
  have p: "hasPendingTransactionsSubject exampleOperator = [False]"
    by (simp add: exampleOperator_def newEthBalanceAndOutputsOperator_def newBalanceMap_def)
  show ?thesis
    using C4_pending_transactions [OF run ex_wellFormed] r ex_wellFormed
    by (simp add: ex_coin ex_nodeBalance p)
qed

text \<open>
  C3. A cycle of the subscription \<open>k\<close>, from the end of its delay to the end of its network
  pass; \<open>began\<close> is the operator when the network pass begins, which is the operator of
  before the cycle with \<^verbatim>\<open>refreshingBalanceSubject\<close> set unless the quick pass has run
  first. When the node fails a request of the pass, the operator emits \<open>True\<close> in
  \<^verbatim>\<open>hadErrorRefreshingBalanceSubject\<close> and waits \<^verbatim>\<open>errorUpdatePeriod\<close> for the next
  cycle; the published list, what it has emitted, \<^verbatim>\<open>savedBalanceData\<close> and every object
  that the store had are as they were. When the node answers every request, the operator
  emits \<open>False\<close>, \<^verbatim>\<open>savedBalanceData\<close> becomes the map that the pass has filled,
  \<^verbatim>\<open>firstFullUpdateMadeSubject\<close> emits \<open>True\<close> unless it has done so before, and the
  operator waits \<^verbatim>\<open>updatePeriod\<close>. A new operator has an \<^verbatim>\<open>errorUpdatePeriod\<close> shorter
  than its \<^verbatim>\<open>updatePeriod\<close>, and no cycle changes the two.
\<close>

theorem C3_failed_and_successful_pass:
  assumes k: "k < length (subscriptions op)"
    and waiting: "subscriptions op ! k = Waiting delayMs updateWalletsFirst"
    and chain: "dataRefreshSubscription op = Some k"
    and saved: "savedWalletsList op = Some wallets"
    and began: "began = networkPassBegins node wallets updateWalletsFirst op"
    and ended: "op' = passEnds node k (timerFires node k op)"
  shows "errorUpdatePeriod (newEthBalanceAndOutputsOperator coin) <
       updatePeriod (newEthBalanceAndOutputsOperator coin)
   \<and> updatePeriod op' = updatePeriod op \<and> errorUpdatePeriod op' = errorUpdatePeriod op
   \<and> dataRefreshSubscription op' = Some (length (subscriptions op))
   \<and> (\<not> updateWalletsFirst \<longrightarrow>
         began = op\<lparr>refreshingBalanceSubject := refreshingBalanceSubject op @ [True]\<rparr>)
   \<and> (\<not> allBalancesAnswered (currentCoin op) node wallets \<longrightarrow>
         hadErrorRefreshingBalanceSubject op' = hadErrorRefreshingBalanceSubject op @ [True]
         \<and> subscriptions op' =
             (subscriptions op)[k := Closed] @ [Waiting (errorUpdatePeriod op) False]
         \<and> walletsWithBalanceList op' = walletsWithBalanceList began
         \<and> walletsWithBalanceSubject op' = walletsWithBalanceSubject began
         \<and> hasPendingTransactionsSubject op' = hasPendingTransactionsSubject began
         \<and> firstFullUpdateMadeSubject op' = firstFullUpdateMadeSubject op
         \<and> lastBalancesUpdateTimeSubject op' = lastBalancesUpdateTimeSubject op
         \<and> savedBalanceData op' = savedBalanceData op
         \<and> agreeBelow (nextRef (store began)) (store began) (store op')
         \<and> (publishedAllocated began \<longrightarrow> publishedView op' = publishedView began)
         \<and> (savedBalanceData op < nextRef (store began) \<longrightarrow>
               balanceMaps (store op') (savedBalanceData op') =
               balanceMaps (store began) (savedBalanceData op)))
   \<and> (allBalancesAnswered (currentCoin op) node wallets \<longrightarrow>
         hadErrorRefreshingBalanceSubject op' = hadErrorRefreshingBalanceSubject op @ [False]
         \<and> subscriptions op' =
             (subscriptions op)[k := Closed] @ [Waiting (updatePeriod op) False]
         \<and> savedBalanceData op' = temporalSavedBalanceData op'
         \<and> nextRef (store began) \<le> savedBalanceData op'
         \<and> (distinct (map id' wallets) \<longrightarrow>
               (\<forall>w\<in>set wallets. balanceMaps (store op') (savedBalanceData op') (id' w) =
                   Some (projr (nodeBalance (currentCoin op) node w)))
               \<and> (\<forall>i. i \<notin> id' ` set wallets \<longrightarrow>
                     balanceMaps (store op') (savedBalanceData op') i = None))
         \<and> firstFullUpdateMadeSubject op' =
             (if last (firstFullUpdateMadeSubject op) then firstFullUpdateMadeSubject op
              else firstFullUpdateMadeSubject op @ [True])
         \<and> last (firstFullUpdateMadeSubject op')
         \<and> lastBalancesUpdateTimeSubject op' = Suc (lastBalancesUpdateTimeSubject op))"
proof -
  note B = networkPassBegins_fields [of node wallets updateWalletsFirst op, folded began]
  obtain r opn where run: "refreshBalances node wallets False began = (r, opn)"
    by (cases "refreshBalances node wallets False began")
  have q: "began = (if updateWalletsFirst
      then snd (refreshBalances node wallets True
                  (op\<lparr>refreshingBalanceSubject := refreshingBalanceSubject op @ [True]\<rparr>))
      else op\<lparr>refreshingBalanceSubject := refreshingBalanceSubject op @ [True]\<rparr>)"
    by (simp add: began networkPassBegins_def Let_def)
  obtain tw where fin: "op' = closeSubscription k
       ((case r of Inl e \<Rightarrow> refreshError | Inr v \<Rightarrow> refreshNext)
          (opn\<lparr>subscriptions := (subscriptions op)[k := Running wallets tw]\<rparr>))"
    using cycle [OF k waiting saved q run] ended by blast
  let ?x = "(subscriptions op)[k := Running wallets tw]"
  have kx: "k < length ?x" using k by simp
  have periods: "errorUpdatePeriod (newEthBalanceAndOutputsOperator coin) <
       updatePeriod (newEthBalanceAndOutputsOperator coin)"
    by (simp add: newEthBalanceAndOutputsOperator_def newBalanceMap_def)
  have quick: "\<not> updateWalletsFirst \<longrightarrow>
         began = op\<lparr>refreshingBalanceSubject := refreshingBalanceSubject op @ [True]\<rparr>"
    by (simp add: q)
  show ?thesis
  proof (cases "allBalancesAnswered (currentCoin op) node wallets")
    case False
    then have failed: "\<not> allBalancesAnswered (currentCoin began) node wallets"
      by (simp add: B)
    note N = network_pass_failure [OF run failed]
    have r: "r = Inl RpcError"
      and opn: "opn = began\<lparr>store := store opn,
          temporalSavedBalanceData := temporalSavedBalanceData opn\<rparr>"
      and agree: "agreeBelow (nextRef (store began)) (store began) (store opn)"
      using N by blast+
    have fields: "dataRefreshSubscription opn = Some k" "savedWalletsList opn = Some wallets"
      "errorUpdatePeriod opn = errorUpdatePeriod op" "updatePeriod opn = updatePeriod op"
      "hadErrorRefreshingBalanceSubject opn = hadErrorRefreshingBalanceSubject op"
      "firstFullUpdateMadeSubject opn = firstFullUpdateMadeSubject op"
      "lastBalancesUpdateTimeSubject opn = lastBalancesUpdateTimeSubject op"
      "savedBalanceData opn = savedBalanceData op"
      by (subst opn, simp add: B chain saved)+
    have same: "walletsWithBalanceList opn = walletsWithBalanceList began"
      "walletsWithBalanceSubject opn = walletsWithBalanceSubject began"
      "hasPendingTransactionsSubject opn = hasPendingTransactionsSubject began"
      by (subst opn, simp)+
    have fin': "op' = closeSubscription k (refreshError (opn\<lparr>subscriptions := ?x\<rparr>))"
      using fin r by simp
    note E = cycle_end_error [OF fields(1) fields(2) kx, folded fin']
    have view: "publishedView op' = publishedView began" if "publishedAllocated began"
      by (rule agreeBelow_publishedView [OF _ _ that]) (simp_all add: E agree same)
    have cache: "balanceMaps (store op') (savedBalanceData op') =
        balanceMaps (store began) (savedBalanceData op)"
      if "savedBalanceData op < nextRef (store began)"
      using agree that by (simp add: E fields agreeBelow_def)
    show ?thesis
      using False periods quick view cache agree
      by (simp add: E fields same)
  next
    case True
    then have answered: "allBalancesAnswered (currentCoin began) node wallets"
      by (simp add: B)
    note S = network_pass_success [OF run answered]
    have r: "r = Inr ()" using S by blast
    have fields: "dataRefreshSubscription opn = Some k" "savedWalletsList opn = Some wallets"
      using S by (simp_all add: B chain saved)
    have fin': "op' = closeSubscription k (refreshNext (opn\<lparr>subscriptions := ?x\<rparr>))"
      using fin r by simp
    note E = cycle_end_next [OF fields(1) fields(2) kx, folded fin']
    have sv: "savedBalanceData opn = temporalSavedBalanceData opn"
      "nextRef (store began) \<le> temporalSavedBalanceData opn"
      "updatePeriod opn = updatePeriod op" "errorUpdatePeriod opn = errorUpdatePeriod op"
      "hadErrorRefreshingBalanceSubject opn = hadErrorRefreshingBalanceSubject op"
      "lastBalancesUpdateTimeSubject opn = Suc (lastBalancesUpdateTimeSubject op)"
      "firstFullUpdateMadeSubject opn =
         (if last (firstFullUpdateMadeSubject op) then firstFullUpdateMadeSubject op
          else firstFullUpdateMadeSubject op @ [True])"
      using S by (simp_all add: B)
    have cache: "(\<forall>w\<in>set wallets. balanceMaps (store op') (savedBalanceData op') (id' w) =
                   Some (projr (nodeBalance (currentCoin op) node w)))
               \<and> (\<forall>i. i \<notin> id' ` set wallets \<longrightarrow>
                     balanceMaps (store op') (savedBalanceData op') i = None)"
      if ids: "distinct (map id' wallets)"
    proof -
      have "(\<forall>w\<in>set wallets. balanceMaps (store opn) (savedBalanceData opn) (id' w) =
                   Some (projr (nodeBalance (currentCoin began) node w)))
               \<and> (\<forall>i. i \<notin> id' ` set wallets \<longrightarrow>
                     balanceMaps (store opn) (savedBalanceData opn) i = None)"
        using S ids by blast
      then show ?thesis
        by (simp add: E B)
    qed
    show ?thesis
      using True periods quick cache
      by (simp add: E sv)
  qed
qed

text \<open>
  The operator of the example, which has published W and waits: with the node that fails
  one request the cycle ends with the error and the delay of 2000, and the published list
  and the saved data are as before; with the node that answers, it ends with the delay of
  10000 and the balance of W in the saved data.
\<close>

theorem C3_witness:
  "hadErrorRefreshingBalanceSubject
     (passEnds exampleFailingNode 0 (timerFires exampleFailingNode 0 exampleWaiting)) =
     [False, True]
   \<and> subscriptions
       (passEnds exampleFailingNode 0 (timerFires exampleFailingNode 0 exampleWaiting)) =
       [Closed, Waiting 2000 False]
   \<and> walletsWithBalanceList
       (passEnds exampleFailingNode 0 (timerFires exampleFailingNode 0 exampleWaiting)) = Some 6
   \<and> walletsWithBalanceSubject
       (passEnds exampleFailingNode 0 (timerFires exampleFailingNode 0 exampleWaiting)) = [Some 6]
   \<and> publishedView
       (passEnds exampleFailingNode 0 (timerFires exampleFailingNode 0 exampleWaiting)) =
       publishedView exampleWaiting
   \<and> savedBalanceData
       (passEnds exampleFailingNode 0 (timerFires exampleFailingNode 0 exampleWaiting)) =
       savedBalanceData exampleWaiting
   \<and> balanceMaps
       (store (passEnds exampleFailingNode 0 (timerFires exampleFailingNode 0 exampleWaiting)))
       (savedBalanceData exampleWaiting) =
       balanceMaps (store exampleWaiting) (savedBalanceData exampleWaiting)
   \<and> hadErrorRefreshingBalanceSubject
       (passEnds exampleNode 0 (timerFires exampleNode 0 exampleWaiting)) = [False, False]
   \<and> subscriptions (passEnds exampleNode 0 (timerFires exampleNode 0 exampleWaiting)) =
       [Closed, Waiting 10000 False]
   \<and> firstFullUpdateMadeSubject (passEnds exampleNode 0 (timerFires exampleNode 0 exampleWaiting)) =
       [False, True]
   \<and> savedBalanceData (passEnds exampleNode 0 (timerFires exampleNode 0 exampleWaiting)) =
       temporalSavedBalanceData (passEnds exampleNode 0 (timerFires exampleNode 0 exampleWaiting))
   \<and> balanceMaps (store (passEnds exampleNode 0 (timerFires exampleNode 0 exampleWaiting)))
       (savedBalanceData (passEnds exampleNode 0 (timerFires exampleNode 0 exampleWaiting))) ''W'' =
       Some \<lparr>current = Num 8, predicted = Num 9,
          WalletBalance.addresses = [''A1'' \<mapsto> \<lparr>current = Num 5, predicted = Num 5\<rparr>,
                       ''A2'' \<mapsto> \<lparr>current = Num 3, predicted = Num 4\<rparr>]\<rparr>"
proof -
  have k: "0 < length (subscriptions exampleWaiting)"
    and waiting: "subscriptions exampleWaiting ! 0 = Waiting 0 False"
    and chain: "dataRefreshSubscription exampleWaiting = Some 0"
    and saved: "savedWalletsList exampleWaiting = Some [exampleWallet]"
    by simp_all
  have began: "networkPassBegins node [exampleWallet] False exampleWaiting =
      exampleWaiting\<lparr>refreshingBalanceSubject := refreshingBalanceSubject exampleWaiting @ [True]\<rparr>"
    for node
    by (simp add: networkPassBegins_def)
  have w: "id' exampleWallet = ''W''"
    by (simp add: exampleWallet_def)
  note failed = C3_failed_and_successful_pass [where node = exampleFailingNode
      and coin = exampleCoin, OF k waiting chain saved refl refl]
  note succeeded = C3_failed_and_successful_pass [where node = exampleNode
      and coin = exampleCoin, OF k waiting chain saved refl refl]
  have s: "balanceMaps exampleStore r = Map.empty" "nextRef exampleStore = 12" for r
    by (simp_all add: exampleStore_def)
  have v: "publishedView (exampleWaiting\<lparr>refreshingBalanceSubject := x\<rparr>) =
      publishedView exampleWaiting" for x
    by (simp add: publishedView_def)
  show ?thesis
    using failed succeeded ex_failing ex_answered
    by (clarsimp simp: began ex_allocated ex_nodeBalance w s v)
qed


text \<open>
  The claim as the specification has it, with the published list of before the cycle: the
  first cycle of an operator, which the list of the wallets service has started with
  \<^verbatim>\<open>updateWalletsFirst\<close> set, and a node that fails a request. The operator had published
  no list before the cycle; after it, the list of the quick pass is the published one, and
  has been emitted.
\<close>

theorem C3_counterexample:
  "subscriptions exampleStarted = [Waiting 0 True]
   \<and> \<not> allBalancesAnswered (currentCoin exampleStarted) exampleFailingNode [exampleWallet]
   \<and> hadErrorRefreshingBalanceSubject
       (passEnds exampleFailingNode 0 (timerFires exampleFailingNode 0 exampleStarted)) =
       [False, True]
   \<and> subscriptions
       (passEnds exampleFailingNode 0 (timerFires exampleFailingNode 0 exampleStarted)) =
       [Closed, Waiting 2000 False]
   \<and> walletsWithBalanceList exampleStarted = None
   \<and> walletsWithBalanceSubject exampleStarted = []
   \<and> walletsWithBalanceList
       (passEnds exampleFailingNode 0 (timerFires exampleFailingNode 0 exampleStarted)) \<noteq> None
   \<and> walletsWithBalanceSubject
       (passEnds exampleFailingNode 0 (timerFires exampleFailingNode 0 exampleStarted)) =
       [walletsWithBalanceList
          (passEnds exampleFailingNode 0 (timerFires exampleFailingNode 0 exampleStarted))]"
proof -
  let ?op' = "passEnds exampleFailingNode 0 (timerFires exampleFailingNode 0 exampleStarted)"
  let ?began = "networkPassBegins exampleFailingNode [exampleWallet] True exampleStarted"
  let ?op1 = "exampleStarted\<lparr>refreshingBalanceSubject :=
      refreshingBalanceSubject exampleStarted @ [True]\<rparr>"
  have k: "0 < length (subscriptions exampleStarted)"
    and waiting: "subscriptions exampleStarted ! 0 = Waiting 0 True"
    by (simp_all add: ex_started_fields)
  have failed: "\<not> allBalancesAnswered (currentCoin exampleStarted) exampleFailingNode
      [exampleWallet]"
    by (simp add: ex_started_fields ex_failing)
  note F = cycle_failure [OF k waiting ex_started_fields(2) ex_started_fields(3) failed]
  have began: "?began = snd (refreshBalances exampleFailingNode [exampleWallet] True ?op1)"
    by (simp add: networkPassBegins_def)
  have "refreshBalances exampleFailingNode [exampleWallet] True ?op1 =
      (fst (refreshBalances exampleFailingNode [exampleWallet] True ?op1), ?began)"
    by (simp add: began)
  note Q = quick_pass [OF this]
  have view: "publishedView ?began \<noteq> None"
    using Q by simp
  then have list: "walletsWithBalanceList ?began \<noteq> None"
    by (simp add: publishedView_def)
  have subject: "walletsWithBalanceSubject ?began = [walletsWithBalanceList ?began]"
    using Q by (simp add: ex_started_fields)
  show ?thesis
    using failed list subject
    by (simp add: F ex_started_fields)
qed
text \<open>
  C8. In an operator that a run of events has made from a new one, at most one subscription
  is not closed. A call of \<^verbatim>\<open>refreshBalance\<close>, or a new list of wallets, closes every
  subscription that the operator had, waiting or running; such a subscription stays closed
  in every later operator, where the end of its delay and the end of its network pass,
  which contains the reconciliation, do nothing. After two calls of \<^verbatim>\<open>refreshBalance\<close>
  the subscription of the first is closed and the one of the second waits; whatever events
  of the first come between those of the second, the run is the cycle of the second alone,
  in which one network pass completes when the node answers, and none when it fails.
\<close>

theorem C8_one_active_chain:
  assumes reach: "op = run events (newEthBalanceAndOutputsOperator coin)"
    and start: "started = refreshBalance op \<or> started = walletsChanged wallets op"
    and j: "j < length (subscriptions op)"
    and twice: "twice = refreshBalance (refreshBalance op)"
  shows "(\<forall>i<length (subscriptions op). \<forall>i'<length (subscriptions op).
           subscriptions op ! i \<noteq> Closed \<longrightarrow> subscriptions op ! i' \<noteq> Closed \<longrightarrow> i = i')
   \<and> subscriptions started ! j = Closed
   \<and> (\<forall>es node. j < length (subscriptions (run es started))
         \<and> subscriptions (run es started) ! j = Closed
         \<and> timerFires node j (run es started) = run es started
         \<and> passEnds node j (run es started) = run es started)
   \<and> (\<forall>saved. savedWalletsList op = Some saved \<longrightarrow>
         length (subscriptions twice) = length (subscriptions op) + 2
         \<and> (\<forall>i\<le>length (subscriptions op). subscriptions twice ! i = Closed)
         \<and> subscriptions twice ! Suc (length (subscriptions op)) = Waiting 0 False
         \<and> dataRefreshSubscription twice = Some (Suc (length (subscriptions op)))
         \<and> (\<forall>node es1 es2 es3.
               list_all (onChain (length (subscriptions op))) es1
               \<and> list_all (onChain (length (subscriptions op))) es2
               \<and> list_all (onChain (length (subscriptions op))) es3 \<longrightarrow>
               run (es1 @ [TimerFires node (Suc (length (subscriptions op)))] @ es2
                    @ [PassEnds node (Suc (length (subscriptions op)))] @ es3) twice =
                 passEnds node (Suc (length (subscriptions op)))
                   (timerFires node (Suc (length (subscriptions op))) twice)
               \<and> lastBalancesUpdateTimeSubject
                   (passEnds node (Suc (length (subscriptions op)))
                      (timerFires node (Suc (length (subscriptions op))) twice)) =
                 (if allBalancesAnswered (currentCoin op) node saved
                  then Suc (lastBalancesUpdateTimeSubject op)
                  else lastBalancesUpdateTimeSubject op)))"
proof -
  let ?n = "length (subscriptions op)"
  have one: "oneChain op"
    unfolding reach by (rule oneChain_run [OF oneChain_new])
  have atMost: "\<forall>i<?n. \<forall>i'<?n.
      subscriptions op ! i \<noteq> Closed \<longrightarrow> subscriptions op ! i' \<noteq> Closed \<longrightarrow> i = i'"
    using oneChain_atMostOne [OF one] by blast
  have closed: "j < length (subscriptions started) \<and> subscriptions started ! j = Closed"
    using start
  proof
    assume s: "started = refreshBalance op"
    show ?thesis
      using oneChain_start(2,3) [OF one, of 0 False] j
      by (auto simp: s refreshBalance_def)
  next
    assume s: "started = walletsChanged wallets op"
    have "oneChain (op\<lparr>savedWalletsList := Some wallets\<rparr>)"
      using one by (simp add: oneChain_iff)
    from oneChain_start(2,3) [OF this, of 0 True] show ?thesis
      using j by (auto simp: s walletsChanged_def)
  qed
  have later: "j < length (subscriptions (run es started))
         \<and> subscriptions (run es started) ! j = Closed
         \<and> timerFires node j (run es started) = run es started
         \<and> passEnds node j (run es started) = run es started" for es node
  proof -
    have c: "j < length (subscriptions (run es started))
        \<and> subscriptions (run es started) ! j = Closed"
      using closed_run closed by blast
    then show ?thesis
      by (simp add: timerFires_noop passEnds_noop)
  qed
  have two: "length (subscriptions twice) = ?n + 2
         \<and> (\<forall>i\<le>?n. subscriptions twice ! i = Closed)
         \<and> subscriptions twice ! Suc ?n = Waiting 0 False
         \<and> dataRefreshSubscription twice = Some (Suc ?n)
         \<and> (\<forall>node es1 es2 es3.
               list_all (onChain ?n) es1 \<and> list_all (onChain ?n) es2
               \<and> list_all (onChain ?n) es3 \<longrightarrow>
               run (es1 @ [TimerFires node (Suc ?n)] @ es2 @ [PassEnds node (Suc ?n)] @ es3) twice =
                 passEnds node (Suc ?n) (timerFires node (Suc ?n) twice)
               \<and> lastBalancesUpdateTimeSubject
                   (passEnds node (Suc ?n) (timerFires node (Suc ?n) twice)) =
                 (if allBalancesAnswered (currentCoin op) node saved
                  then Suc (lastBalancesUpdateTimeSubject op)
                  else lastBalancesUpdateTimeSubject op))"
    if saved: "savedWalletsList op = Some saved" for saved
  proof -
    note T = refreshBalance_twice [OF one saved, folded twice]
    have k1: "?n < length (subscriptions twice)" and c1: "subscriptions twice ! ?n = Closed"
      using T(1,2) by simp_all
    have k2: "Suc ?n < length (subscriptions twice)"
      using T(1) by simp
    have "run (es1 @ [TimerFires node (Suc ?n)] @ es2 @ [PassEnds node (Suc ?n)] @ es3) twice =
        passEnds node (Suc ?n) (timerFires node (Suc ?n) twice)"
      if "list_all (onChain ?n) es1" "list_all (onChain ?n) es2" "list_all (onChain ?n) es3"
      for node es1 es2 es3
      using cancelled_chain [OF k1 c1 that] .
    moreover have "lastBalancesUpdateTimeSubject
        (passEnds node (Suc ?n) (timerFires node (Suc ?n) twice)) =
        (if allBalancesAnswered (currentCoin op) node saved
         then Suc (lastBalancesUpdateTimeSubject op) else lastBalancesUpdateTimeSubject op)"
      for node
      using cycle_completes [OF k2 T(3) T(4) T(5), of node] by (simp add: T)
    ultimately show ?thesis
      using T(1-4) by simp
  qed
  show ?thesis
    using atMost closed later two by blast
qed

text \<open>
  The new operator with the wallet W has the subscription 0, which waits. A call of
  \<^verbatim>\<open>refreshBalance\<close> closes it, and the end of its network pass does nothing afterwards.
  After two calls, the events of the subscription 1 change nothing in the cycle of the
  subscription 2, which completes one network pass with the node of the example.
\<close>

theorem C8_witness:
  "subscriptions exampleStarted = [Waiting 0 True]
   \<and> subscriptions (refreshBalance exampleStarted) ! 0 = Closed
   \<and> passEnds exampleNode 0 (run [TimerFires exampleNode 0] (refreshBalance exampleStarted)) =
       run [TimerFires exampleNode 0] (refreshBalance exampleStarted)
   \<and> subscriptions (refreshBalance (refreshBalance exampleStarted)) ! 1 = Closed
   \<and> subscriptions (refreshBalance (refreshBalance exampleStarted)) ! 2 = Waiting 0 False
   \<and> run [TimerFires exampleNode 1, TimerFires exampleNode 2,
           PassEnds exampleNode 1, PassEnds exampleNode 2]
        (refreshBalance (refreshBalance exampleStarted)) =
       passEnds exampleNode 2 (timerFires exampleNode 2 (refreshBalance (refreshBalance exampleStarted)))
   \<and> lastBalancesUpdateTimeSubject
        (run [TimerFires exampleNode 1, TimerFires exampleNode 2,
              PassEnds exampleNode 1, PassEnds exampleNode 2]
           (refreshBalance (refreshBalance exampleStarted))) = 1"
proof -
  have ex: "exampleStarted =
      (newEthBalanceAndOutputsOperator exampleCoin)
        \<lparr>savedWalletsList := Some [exampleWallet], subscriptions := [Waiting 0 True],
         dataRefreshSubscription := Some 0\<rparr>"
    by (simp add: exampleStarted_def run_def walletsChanged_def startDataRefreshSubscription_def
        unsubscribe_def Let_def newEthBalanceAndOutputsOperator_def newBalanceMap_def)
  have subs: "subscriptions exampleStarted = [Waiting 0 True]"
    and saved: "savedWalletsList exampleStarted = Some [exampleWallet]"
    and coin: "currentCoin exampleStarted = exampleCoin"
    and time: "lastBalancesUpdateTimeSubject exampleStarted = 0"
    by (simp_all add: ex) (simp_all add: newEthBalanceAndOutputsOperator_def newBalanceMap_def)
  have n: "length (subscriptions exampleStarted) = 1"
    by (simp add: subs)
  have j: "0 < length (subscriptions exampleStarted)"
    by (simp add: subs)
  note W = C8_one_active_chain [OF exampleStarted_def disjI1 [OF refl] j refl]
  have a: "subscriptions (refreshBalance exampleStarted) ! 0 = Closed"
    using W by blast
  have b: "passEnds exampleNode 0 (run [TimerFires exampleNode 0] (refreshBalance exampleStarted)) =
       run [TimerFires exampleNode 0] (refreshBalance exampleStarted)"
    using W by blast
  let ?twice = "refreshBalance (refreshBalance exampleStarted)"
  have two: "(\<forall>i\<le>1. subscriptions ?twice ! i = Closed)
     \<and> subscriptions ?twice ! Suc 1 = Waiting 0 False
     \<and> (\<forall>node es1 es2 es3.
           list_all (onChain 1) es1 \<and> list_all (onChain 1) es2 \<and> list_all (onChain 1) es3 \<longrightarrow>
           run (es1 @ [TimerFires node (Suc 1)] @ es2 @ [PassEnds node (Suc 1)] @ es3) ?twice =
             passEnds node (Suc 1) (timerFires node (Suc 1) ?twice)
           \<and> lastBalancesUpdateTimeSubject
               (passEnds node (Suc 1) (timerFires node (Suc 1) ?twice)) =
             (if allBalancesAnswered exampleCoin node [exampleWallet]
              then Suc (lastBalancesUpdateTimeSubject exampleStarted)
              else lastBalancesUpdateTimeSubject exampleStarted))"
    using W saved unfolding n coin by blast
  have c: "subscriptions ?twice ! 1 = Closed" "subscriptions ?twice ! 2 = Waiting 0 False"
    using two by (simp_all add: numeral_2_eq_2)
  have "list_all (onChain 1) [TimerFires exampleNode 1]
      \<and> list_all (onChain 1) [PassEnds exampleNode 1] \<and> list_all (onChain 1) []"
    by simp
  with two have "run ([TimerFires exampleNode 1] @ [TimerFires exampleNode (Suc 1)]
        @ [PassEnds exampleNode 1] @ [PassEnds exampleNode (Suc 1)] @ []) ?twice =
      passEnds exampleNode (Suc 1) (timerFires exampleNode (Suc 1) ?twice)
    \<and> lastBalancesUpdateTimeSubject
        (passEnds exampleNode (Suc 1) (timerFires exampleNode (Suc 1) ?twice)) =
      (if allBalancesAnswered exampleCoin exampleNode [exampleWallet]
       then Suc (lastBalancesUpdateTimeSubject exampleStarted)
       else lastBalancesUpdateTimeSubject exampleStarted)"
    by blast
  then have d: "run [TimerFires exampleNode 1, TimerFires exampleNode 2,
           PassEnds exampleNode 1, PassEnds exampleNode 2] ?twice =
       passEnds exampleNode 2 (timerFires exampleNode 2 ?twice)"
    and e: "lastBalancesUpdateTimeSubject
        (passEnds exampleNode 2 (timerFires exampleNode 2 ?twice)) = 1"
    using ex_answered by (simp_all add: numeral_2_eq_2 time)
  show ?thesis
    using subs a b c d e by simp
qed

end
